theory Spec2Isabelle
  imports Complex_Main
begin

section \<open>Values shared by the scheduler and the retry helper\<close>

text \<open>
  JavaScript numbers are modelled by exact numbers: \<open>int\<close> where the source only ever holds
  whole numbers (attempt counters, hours, minutes, jitter offsets) and \<open>real\<close> for durations,
  multipliers and random draws. Rounding of IEEE doubles, \<open>NaN\<close> and the infinities are
  outside the model, except in the two configuration fields that the source tests with
  \<open>Number.isFinite\<close>.

  A thrown value is either an \<open>Error\<close> instance (with its message) or any other value
  (with what \<open>String(v)\<close> prints for it).
\<close>

datatype thrown = Err string | NonError string

text \<open>\<open>lastErr instanceof Error ? lastErr : new Error(String(lastErr))\<close>\<close>

fun toError :: "thrown \<Rightarrow> thrown" where
  "toError (Err m) = Err m"
| "toError (NonError s) = Err s"

text \<open>The value of a \<open>let\<close> variable that was never assigned.\<close>

definition undefined_value :: thrown where
  "undefined_value = NonError ''undefined''"

section \<open>util/core/Retry.ts\<close>

text \<open>
  The policy of a \<open>Retry\<close>, with \<open>maxAttempts\<close>, a count, a whole number; and the defaults
  of the constructor (\<open>def\<close>).
\<close>

record NumericPolicy =
  maxAttempts :: int
  baseDelay :: real
  maxDelay :: real
  multiplier :: real
  jitter :: real

definition def :: NumericPolicy where
  "def = \<lparr>maxAttempts = 3, baseDelay = 1000, maxDelay = 30000, multiplier = 2, jitter = 0.2\<rparr>"

text \<open>
  What one call of \<open>Retry.run\<close> did: the value it returned (\<open>Inr\<close>) or threw (\<open>Inl\<close>),
  how often it invoked \<open>fn\<close>, and for every backoff it awaited the pair of the variable
  \<open>delay\<close> at that moment (the delay before jitter) and the \<open>sleep\<close> handed to
  \<open>setTimeout\<close>.
\<close>

record 'a run_report =
  result :: "thrown + 'a"
  calls :: nat
  waits :: "(real \<times> real) list"

text \<open>
  The loop of \<open>Retry.run\<close>. The function \<open>fn\<close> is opaque: \<open>fn k\<close> is what its
  invocation number \<open>k\<close> (from 0) settles to, \<open>Inr\<close> a value or \<open>Inl\<close> a thrown value.
  Every earlier invocation failed and incremented \<open>attempt\<close>, so the loop variable
  \<open>attempt\<close> is also the number of invocations made so far. \<open>random k\<close> is the value of
  \<open>Math.random()\<close> drawn after failure number \<open>k + 1\<close>.
\<close>

function run_loop ::
  "NumericPolicy \<Rightarrow> (nat \<Rightarrow> thrown + 'a) \<Rightarrow> (thrown \<Rightarrow> bool) option \<Rightarrow> (nat \<Rightarrow> real)
     \<Rightarrow> nat \<Rightarrow> real \<Rightarrow> thrown \<Rightarrow> (real \<times> real) list \<Rightarrow> 'a run_report" where
  "run_loop p fn isRetryable random attempt delay lastErr slept =
     (if int attempt < maxAttempts p then
        (case fn attempt of
           Inr v \<Rightarrow> \<lparr>result = Inr v, calls = attempt + 1, waits = slept\<rparr>
         | Inl e \<Rightarrow>
             (let attempt' = attempt + 1;
                  retry = (case isRetryable of Some f \<Rightarrow> f e | None \<Rightarrow> True)
              in if \<not> retry \<or> int attempt' \<ge> maxAttempts p
                 then \<lparr>result = Inl (toError e), calls = attempt', waits = slept\<rparr>
                 else
                   (let jitter = 1 + (random attempt * 2 - 1) * NumericPolicy.jitter p;
                        sleep = min (maxDelay p) (max 0 (of_int \<lfloor>delay * jitter\<rfloor>));
                        delay' = min (maxDelay p)
                                  (of_int \<lfloor>delay * (if multiplier p = 0 then 2 else multiplier p)\<rfloor>)
                    in run_loop p fn isRetryable random attempt' delay' e
                         (slept @ [(delay, sleep)]))))
      else \<lparr>result = Inl (toError lastErr), calls = attempt, waits = slept\<rparr>)"
  by pat_completeness auto
termination
  by (relation "measure (\<lambda>(p, fn, isRetryable, random, attempt, delay, lastErr, slept).
                  nat (maxAttempts p - int attempt))") auto

declare run_loop.simps [simp del]

definition run ::
  "NumericPolicy \<Rightarrow> (nat \<Rightarrow> thrown + 'a) \<Rightarrow> (thrown \<Rightarrow> bool) option \<Rightarrow> (nat \<Rightarrow> real)
     \<Rightarrow> 'a run_report" where
  "run p fn isRetryable random = run_loop p fn isRetryable random 0 (baseDelay p) undefined_value []"

text \<open>Names for the three expressions in the body of the loop, used to state its unfolding.\<close>

definition retryable :: "(thrown \<Rightarrow> bool) option \<Rightarrow> thrown \<Rightarrow> bool" where
  "retryable isRetryable e = (case isRetryable of Some f \<Rightarrow> f e | None \<Rightarrow> True)"

definition sleep_of :: "NumericPolicy \<Rightarrow> real \<Rightarrow> real \<Rightarrow> real" where
  "sleep_of p delay r =
     min (maxDelay p) (max 0 (of_int \<lfloor>delay * (1 + (r * 2 - 1) * NumericPolicy.jitter p)\<rfloor>))"

definition next_delay :: "NumericPolicy \<Rightarrow> real \<Rightarrow> real" where
  "next_delay p delay =
     min (maxDelay p) (of_int \<lfloor>delay * (if multiplier p = 0 then 2 else multiplier p)\<rfloor>)"

text \<open>
  The policies the specification calls valid: \<open>multiplier \<ge> 1\<close>, \<open>baseDelay, maxDelay \<ge> 0\<close>,
  \<open>jitterFraction \<in> [0,1]\<close>.
\<close>

definition valid_policy :: "NumericPolicy \<Rightarrow> bool" where
  "valid_policy p \<longleftrightarrow>
     1 \<le> multiplier p \<and> 0 \<le> baseDelay p \<and> 0 \<le> maxDelay p
     \<and> 0 \<le> NumericPolicy.jitter p \<and> NumericPolicy.jitter p \<le> 1"

section \<open>scheduler/InternalScheduler.ts: resolving the schedule\<close>

subsection \<open>Strings\<close>

text \<open>
  Strings are byte strings, so \<open>trim\<close> removes the ASCII white space of ECMAScript
  (space, tab, line feed, vertical tab, form feed, carriage return); the Unicode space
  characters beyond ASCII are outside the model.
\<close>

definition isWhiteSpace :: "char \<Rightarrow> bool" where
  "isWhiteSpace c \<longleftrightarrow> c \<in> {CHR '' '', CHR 0x09, CHR 0x0A, CHR 0x0B, CHR 0x0C, CHR 0x0D}"

definition trim :: "string \<Rightarrow> string" where
  "trim s = rev (dropWhile isWhiteSpace (rev (dropWhile isWhiteSpace s)))"

definition isDigit :: "char \<Rightarrow> bool" where
  "isDigit c \<longleftrightarrow> c \<in> set ''0123456789''"

text \<open>\<open>parseInt(s, 10)\<close> on a string of decimal digits, which is all the regular expression lets through.\<close>

definition parseInt :: "string \<Rightarrow> int" where
  "parseInt s = fold (\<lambda>c n. 10 * n + (int (of_char c) - 48)) s 0"

text \<open>
  \<open>/^(\d{1,2}):(\d{2})$/.exec(s)\<close>: the two capture groups, or \<open>None\<close> for \<open>null\<close>.
  The anchors fix the length at four or five characters.
\<close>

fun timeMatch :: "string \<Rightarrow> (string \<times> string) option" where
  "timeMatch [h1, c, m1, m2] =
     (if isDigit h1 \<and> c = CHR '':'' \<and> isDigit m1 \<and> isDigit m2 then Some ([h1], [m1, m2]) else None)"
| "timeMatch [h1, h2, c, m1, m2] =
     (if isDigit h1 \<and> isDigit h2 \<and> c = CHR '':'' \<and> isDigit m1 \<and> isDigit m2
      then Some ([h1, h2], [m1, m2]) else None)"
| "timeMatch s = None"

text \<open>\<open>String(n)\<close> for a whole number.\<close>

fun digits :: "nat \<Rightarrow> string" where
  "digits n =
     (if n < 10 then [''0123456789'' ! n] else digits (n div 10) @ [''0123456789'' ! (n mod 10)])"

declare digits.simps [simp del]

definition String :: "int \<Rightarrow> string" where
  "String i = (if i < 0 then CHR ''-'' # digits (nat (- i)) else digits (nat i))"

text \<open>\<open>s.padStart(2, '0')\<close>\<close>

definition padStart2 :: "string \<Rightarrow> string" where
  "padStart2 s = replicate (2 - length s) CHR ''0'' @ s"

text \<open>\<open>s.split(' ')\<close>: always at least one part, empty parts kept.\<close>

fun split :: "string \<Rightarrow> string list" where
  "split [] = [[]]"
| "split (c # cs) =
     (if c = CHR '' '' then [] # split cs
      else (case split cs of p # ps \<Rightarrow> (c # p) # ps | [] \<Rightarrow> [[c]]))"

definition extractTimeFromCron :: "string \<Rightarrow> string" where
  "extractTimeFromCron cronExpr =
     (let parts = split cronExpr
      in if length parts \<ge> 2 then
           (let minute = parts ! 0; hour = parts ! 1
            in if minute \<noteq> [] \<and> hour \<noteq> [] \<and> minute \<noteq> ''*'' \<and> hour \<noteq> ''*''
               then padStart2 hour @ '':'' @ padStart2 minute
               else cronExpr)
         else cronExpr)"

subsection \<open>Configuration\<close>

text \<open>
  A value of type \<open>number\<close> in a field that the source tests with \<open>Number.isFinite\<close>.
\<close>

datatype number = Num real | NaN | Infinity | NegInfinity

text \<open>
  The part of \<open>Config\<close> the scheduler reads. An optional field is an \<open>option\<close>, \<open>None\<close>
  when it is absent; \<open>cron_schedule\<close> is \<open>scheduling.cron?.schedule\<close>.
\<close>

record jitter_options =
  enabled :: "bool option"
  minMinutesBefore :: "number option"
  maxMinutesAfter :: "number option"

record scheduling =
  enabled :: "bool option"
  time :: "string option"
  cron_schedule :: "string option"
  jitter :: "jitter_options option"

record crashRecovery =
  maxRestarts :: "int option"
  backoffBaseMs :: "real option"

record Config =
  scheduling :: "scheduling option"
  crashRecovery :: "crashRecovery option"

text \<open>A string in a condition is true unless it is absent or empty.\<close>

fun truthy :: "string option \<Rightarrow> bool" where
  "truthy None = False"
| "truthy (Some s) = (s \<noteq> [])"

subsection \<open>applyJitter\<close>

text \<open>\<open>r\<close> is the value of \<open>Math.random()\<close>, a number in \<open>[0, 1)\<close>.\<close>

definition getRandomInt :: "real \<Rightarrow> real \<Rightarrow> real \<Rightarrow> int" where
  "getRandomInt minInclusive maxInclusive r =
     (let min = \<lceil>minInclusive\<rceil>; max = \<lfloor>maxInclusive\<rfloor>
      in \<lfloor>r * of_int (max - min + 1)\<rfloor> + min)"

text \<open>\<open>while (totalMinutes < 0) totalMinutes += minutesInDay\<close>\<close>

function add_days :: "int \<Rightarrow> int" where
  "add_days totalMinutes = (if totalMinutes < 0 then add_days (totalMinutes + 24 * 60) else totalMinutes)"
  by pat_completeness auto
termination
  by (relation "measure (\<lambda>t. nat (- t))") auto

declare add_days.simps [simp del]

text \<open>\<open>while (totalMinutes >= minutesInDay) totalMinutes -= minutesInDay\<close>\<close>

function sub_days :: "int \<Rightarrow> int" where
  "sub_days totalMinutes = (if totalMinutes \<ge> 24 * 60 then sub_days (totalMinutes - 24 * 60) else totalMinutes)"
  by pat_completeness auto
termination
  by (relation "measure nat") auto

declare sub_days.simps [simp del]

text \<open>The remainder operator \<open>%\<close> on whole numbers: the sign of the result is that of the dividend.\<close>

definition js_rem :: "int \<Rightarrow> int \<Rightarrow> int" where
  "js_rem a b = sgn a * (\<bar>a\<bar> mod \<bar>b\<bar>)"

record jittered =
  hour :: int
  minute :: int
  offsetMinutes :: int

text \<open>
  Written as an abstraction, so that the parameters keep the names they have in the source
  beside the fields \<open>hour\<close>, \<open>minute\<close> and \<open>jitter\<close>; \<open>before\<close> and \<open>after\<close> are written
  \<open>beforeMinutes\<close> and \<open>afterMinutes\<close>, \<open>before\<close> being a reserved word of the code generator's
  target language.
\<close>

definition applyJitter :: "int \<Rightarrow> int \<Rightarrow> jitter_options option \<Rightarrow> real \<Rightarrow> jittered" where
  "applyJitter = (\<lambda>hour minute jitter r.
     (let enabled = (case jitter of Some j \<Rightarrow> jitter_options.enabled j = Some True | None \<Rightarrow> False);
          beforeMinutes = (case jitter of
                      Some j \<Rightarrow> (case minMinutesBefore j of Some (Num x) \<Rightarrow> x | _ \<Rightarrow> 20)
                    | None \<Rightarrow> 20);
          afterMinutes = (case jitter of
                     Some j \<Rightarrow> (case maxMinutesAfter j of Some (Num x) \<Rightarrow> x | _ \<Rightarrow> 30)
                   | None \<Rightarrow> 30)
      in if \<not> enabled \<or> (beforeMinutes = 0 \<and> afterMinutes = 0)
         then \<lparr>hour = hour, minute = minute, offsetMinutes = 0\<rparr>
         else
           (let minOffset = - \<bar>beforeMinutes\<bar>;
                maxOffset = \<bar>afterMinutes\<bar>;
                offset = getRandomInt minOffset maxOffset r;
                totalMinutes = sub_days (add_days (hour * 60 + minute + offset));
                jitteredHour = totalMinutes div 60;
                jitteredMinute = js_rem totalMinutes 60
            in \<lparr>hour = jitteredHour, minute = jitteredMinute, offsetMinutes = offset\<rparr>)))"

subsection \<open>buildSchedule\<close>

record schedule =
  cronExpr :: "string option"
  displayTime :: string
  jitterApplied :: int

definition buildSchedule :: "scheduling \<Rightarrow> real \<Rightarrow> schedule" where
  "buildSchedule scheduleConfig r =
     (if truthy (time scheduleConfig) then
        (case timeMatch (trim (the (time scheduleConfig))) of
           Some (g1, g2) \<Rightarrow>
             (let hours = parseInt g1; minutes = parseInt g2
              in if hours \<ge> 0 \<and> hours \<le> 23 \<and> minutes \<ge> 0 \<and> minutes \<le> 59 then
                   (let jitter = applyJitter hours minutes (scheduling.jitter scheduleConfig) r;
                        cronExpr = String (minute jitter) @ '' '' @ String (hour jitter) @ '' * * *'';
                        display = padStart2 (String hours) @ '':'' @ padStart2 (String minutes)
                    in \<lparr>cronExpr = Some cronExpr, displayTime = display,
                        jitterApplied = offsetMinutes jitter\<rparr>)
                 else \<lparr>cronExpr = None, displayTime = [], jitterApplied = 0\<rparr>)
         | None \<Rightarrow> \<lparr>cronExpr = None, displayTime = [], jitterApplied = 0\<rparr>)
      else if truthy (cron_schedule scheduleConfig) then
        \<lparr>cronExpr = cron_schedule scheduleConfig,
         displayTime = extractTimeFromCron (the (cron_schedule scheduleConfig)),
         jitterApplied = 0\<rparr>
      else
        (let jitter = applyJitter 9 0 (scheduling.jitter scheduleConfig) r
         in \<lparr>cronExpr = Some (String (minute jitter) @ '' '' @ String (hour jitter) @ '' * * *''),
             displayTime = ''09:00'', jitterApplied = offsetMinutes jitter\<rparr>))"

section \<open>scheduler/InternalScheduler.ts: the engine\<close>

subsection \<open>State\<close>

text \<open>
  The fields of an \<open>InternalScheduler\<close> that change. \<open>cronJob\<close> is the handle of the live
  job of the cron library, \<open>None\<close> for \<open>null\<close>; \<open>lastRunTime\<close> is a time in milliseconds.
\<close>

record engine =
  cronJob :: "string option"
  isRunning :: bool
  lastRunTime :: "real option"
  lastCronExpression :: "string option"

text \<open>The state the constructor leaves.\<close>

definition constructed :: engine where
  "constructed = \<lparr>cronJob = None, isRunning = False, lastRunTime = None, lastCronExpression = None\<rparr>"

text \<open>
  What a run can be observed to do, in the order it does it: the assignment to
  \<open>lastRunTime\<close>, the call of \<open>taskCallback\<close>, the timer of a backoff, the call of
  \<open>rescheduleWithJitter\<close>, and the return at the overlap check.
\<close>

datatype event = SetLastRun real | Invoke | Sleep real | Reschedule | Skip

text \<open>The engine in its surroundings: the clock of the host and the events so far.\<close>

record world =
  eng :: engine
  clock :: real
  trace :: "event list"

subsection \<open>start, stop, rescheduleWithJitter\<close>

text \<open>
  The cron library is not among the sources. Its \<open>validate\<close> is a parameter, \<open>V\<close>, of every
  function that calls it. The log lines, and \<open>getNextRunTime\<close> which only feeds them, are
  left out.
\<close>

text \<open>
  Modelled from the spec: \<open>cron.schedule\<close> of the cron library, the \<open>TriggerClock.arm\<close> of
  the specification. For an expression that passed the validity check it returns a live
  handle and does not fail, so the \<open>catch\<close> of \<open>start\<close> is never entered. The handle is
  represented by the expression it was armed with; the handler is \<open>runScheduledTask\<close> every
  time, and the time zone plays no part here.
\<close>

definition schedule_job :: "string \<Rightarrow> string" where
  "schedule_job expression = expression"

definition start :: "Config \<Rightarrow> (string \<Rightarrow> bool) \<Rightarrow> real \<Rightarrow> engine \<Rightarrow> bool \<times> engine" where
  "start config V r e =
     (case scheduling config of
        None \<Rightarrow> (False, e)
      | Some scheduleConfig \<Rightarrow>
          if scheduling.enabled scheduleConfig \<noteq> Some True then (False, e)
          else
            (let built = buildSchedule scheduleConfig r
             in if \<not> truthy (cronExpr built) then (False, e)
                else if \<not> V (the (cronExpr built)) then (False, e)
                else (True, e\<lparr>cronJob := Some (schedule_job (the (cronExpr built))),
                               lastCronExpression := cronExpr built\<rparr>)))"

definition stop :: "engine \<Rightarrow> engine" where
  "stop e = (case cronJob e of Some job \<Rightarrow> e\<lparr>cronJob := None\<rparr> | None \<Rightarrow> e)"

definition isActive :: "engine \<Rightarrow> bool" where
  "isActive e \<longleftrightarrow> cronJob e \<noteq> None"

definition rescheduleWithJitter :: "Config \<Rightarrow> (string \<Rightarrow> bool) \<Rightarrow> real \<Rightarrow> engine \<Rightarrow> engine" where
  "rescheduleWithJitter config V r e =
     (case scheduling config of
        None \<Rightarrow> e
      | Some scheduleConfig \<Rightarrow>
          if scheduling.enabled scheduleConfig \<noteq> Some True \<or> \<not> truthy (time scheduleConfig) then e
          else
            (let built = buildSchedule scheduleConfig r
             in if \<not> truthy (cronExpr built) \<or> \<not> V (the (cronExpr built)) then e
                else e\<lparr>cronJob := Some (schedule_job (the (cronExpr built))),
                       lastCronExpression := cronExpr built\<rparr>))"

subsection \<open>runScheduledTask\<close>

text \<open>\<open>this.config.crashRecovery?.maxRestarts ?? 1\<close> and \<open>this.config.crashRecovery?.backoffBaseMs ?? 2000\<close>\<close>

definition maxRetries :: "Config \<Rightarrow> int" where
  "maxRetries config =
     (case crashRecovery config of
        Some c \<Rightarrow> (case maxRestarts c of Some n \<Rightarrow> n | None \<Rightarrow> 1)
      | None \<Rightarrow> 1)"

definition backoffBase :: "Config \<Rightarrow> real" where
  "backoffBase config =
     (case crashRecovery config of
        Some c \<Rightarrow> (case backoffBaseMs c of Some b \<Rightarrow> b | None \<Rightarrow> 2000)
      | None \<Rightarrow> 2000)"

text \<open>
  \<open>runScheduledTask\<close> is an \<open>async\<close> function. It runs without interruption from one
  \<open>await\<close> to the next, and only at an \<open>await\<close> can anything else of the program run. It
  is modelled by the pieces between its \<open>await\<close>s. Between two pieces the function
  is at one of these places: waiting for \<open>taskCallback()\<close> to settle, waiting for the timer
  of a backoff, or returned. The local variable \<open>attempts\<close> goes with the place.

  The function returns nothing; \<open>outcome\<close> names the way it returned: at the overlap check
  (\<open>Skipped\<close>), from inside \<open>try\<close> after the task resolved (\<open>Succeeded\<close>, with the number
  of invocations), or after the loop (\<open>Failed\<close>, with the number of failed invocations).
\<close>

datatype outcome = Skipped | Succeeded nat | Failed nat

datatype place = AwaitTask nat | AwaitBackoff nat real | Returned outcome

text \<open>
  From the test of the \<open>while\<close> to the \<open>await\<close> of the task, or past the loop to the end
  of the function.
\<close>

definition loop_head ::
  "Config \<Rightarrow> (string \<Rightarrow> bool) \<Rightarrow> real \<Rightarrow> nat \<Rightarrow> world \<Rightarrow> place \<times> world" where
  "loop_head config V r attempts w =
     (if int attempts \<le> maxRetries config then
        (AwaitTask attempts,
         w\<lparr>eng := (eng w)\<lparr>isRunning := True, lastRunTime := Some (clock w)\<rparr>,
           trace := trace w @ [SetLastRun (clock w), Invoke]\<rparr>)
      else
        (Returned (Failed attempts),
         w\<lparr>eng := rescheduleWithJitter config V r (eng w), trace := trace w @ [Reschedule]\<rparr>))"

text \<open>From the call of \<open>runScheduledTask\<close> to its first \<open>await\<close>, or to its return.\<close>

definition runScheduledTask_enter ::
  "Config \<Rightarrow> (string \<Rightarrow> bool) \<Rightarrow> real \<Rightarrow> world \<Rightarrow> place \<times> world" where
  "runScheduledTask_enter config V r w =
     (if isRunning (eng w) then (Returned Skipped, w\<lparr>trace := trace w @ [Skip]\<rparr>)
      else loop_head config V r 0 w)"

text \<open>
  From the moment \<open>taskCallback()\<close> settles, with \<open>None\<close> when it resolved and \<open>Some e\<close> when
  it threw or rejected with \<open>e\<close>, to the next \<open>await\<close> or the return. On success:
  \<open>rescheduleWithJitter\<close>, \<open>return\<close>, and the \<open>finally\<close> on the way out. On failure with retries
  left: up to the \<open>await\<close> of the timer inside \<open>catch\<close>, so the \<open>finally\<close> has not run yet.
  On the last failure: \<open>catch\<close>, \<open>finally\<close>, the test of the \<open>while\<close>, which fails, and the
  end of the function.
\<close>

definition runScheduledTask_settled ::
  "Config \<Rightarrow> (string \<Rightarrow> bool) \<Rightarrow> real \<Rightarrow> nat \<Rightarrow> thrown option \<Rightarrow> world \<Rightarrow> place \<times> world" where
  "runScheduledTask_settled config V r attempts settled w =
     (case settled of
        None \<Rightarrow>
          (Returned (Succeeded (attempts + 1)),
           w\<lparr>eng := (rescheduleWithJitter config V r (eng w))\<lparr>isRunning := False\<rparr>,
             trace := trace w @ [Reschedule]\<rparr>)
      | Some error \<Rightarrow>
          (let attempts = attempts + 1
           in if int attempts \<le> maxRetries config then
                (let backoff = backoffBase config * of_nat attempts
                 in (AwaitBackoff attempts backoff, w\<lparr>trace := trace w @ [Sleep backoff]\<rparr>))
              else
                loop_head config V r attempts (w\<lparr>eng := (eng w)\<lparr>isRunning := False\<rparr>\<rparr>)))"

text \<open>
  From the moment the timer of the backoff fires to the next \<open>await\<close>: the end of \<open>catch\<close>,
  the \<open>finally\<close>, and the loop again.
\<close>

definition runScheduledTask_woken ::
  "Config \<Rightarrow> (string \<Rightarrow> bool) \<Rightarrow> real \<Rightarrow> nat \<Rightarrow> world \<Rightarrow> place \<times> world" where
  "runScheduledTask_woken config V r attempts w =
     loop_head config V r attempts (w\<lparr>eng := (eng w)\<lparr>isRunning := False\<rparr>\<rparr>)"

text \<open>
  One run with nothing else of the program in between. The host decides what the task
  does: invocation number \<open>k\<close> of the run (from 0) settles to \<open>settles h k\<close> after
  \<open>takes h k\<close> milliseconds, and the timer of backoff number \<open>k\<close> (from 1) fires
  \<open>late h k\<close> milliseconds after its delay. Every failed invocation increments \<open>attempts\<close>,
  so \<open>attempts\<close> is the number of the invocation awaited.
\<close>

record host =
  settles :: "nat \<Rightarrow> thrown option"
  takes :: "nat \<Rightarrow> real"
  late :: "nat \<Rightarrow> real"

function run_from ::
  "Config \<Rightarrow> (string \<Rightarrow> bool) \<Rightarrow> real \<Rightarrow> host \<Rightarrow> place \<times> world \<Rightarrow> outcome \<times> world" where
  "run_from config V r h (Returned out, w) = (out, w)"
| "run_from config V r h (AwaitTask attempts, w) =
     run_from config V r h
       (runScheduledTask_settled config V r attempts (settles h attempts)
          (w\<lparr>clock := clock w + takes h attempts\<rparr>))"
| "run_from config V r h (AwaitBackoff attempts backoff, w) =
     run_from config V r h
       (runScheduledTask_woken config V r attempts
          (w\<lparr>clock := clock w + backoff + late h attempts\<rparr>))"
  by pat_completeness auto
termination
proof (relation "measure (\<lambda>(config, V, r, h, pl, w).
          (case pl of
             Returned out \<Rightarrow> 0
           | AwaitTask attempts \<Rightarrow> 2 * nat (maxRetries config - int attempts) + 2
           | AwaitBackoff attempts backoff \<Rightarrow> 2 * nat (maxRetries config - int attempts) + 3))")
  show "wf (measure (\<lambda>(config, V, r, h, pl, w).
          (case pl of
             Returned out \<Rightarrow> 0
           | AwaitTask attempts \<Rightarrow> 2 * nat (maxRetries config - int attempts) + 2
           | AwaitBackoff attempts backoff \<Rightarrow> 2 * nat (maxRetries config - int attempts) + 3)))"
    by simp
next
  fix config V r h attempts w
  show "((config, V, r, h,
          runScheduledTask_settled config V r attempts (settles h attempts)
            (w\<lparr>clock := clock w + takes h attempts\<rparr>)),
         (config, V, r, h, AwaitTask attempts, w))
        \<in> measure (\<lambda>(config, V, r, h, pl, w).
             (case pl of
                Returned out \<Rightarrow> 0
              | AwaitTask attempts \<Rightarrow> 2 * nat (maxRetries config - int attempts) + 2
              | AwaitBackoff attempts backoff \<Rightarrow> 2 * nat (maxRetries config - int attempts) + 3))"
    by (cases "settles h attempts")
       (auto simp: runScheduledTask_settled_def loop_head_def Let_def)
next
  fix config V r h attempts backoff w
  show "((config, V, r, h,
          runScheduledTask_woken config V r attempts
            (w\<lparr>clock := clock w + backoff + late h attempts\<rparr>)),
         (config, V, r, h, AwaitBackoff attempts backoff, w))
        \<in> measure (\<lambda>(config, V, r, h, pl, w).
             (case pl of
                Returned out \<Rightarrow> 0
              | AwaitTask attempts \<Rightarrow> 2 * nat (maxRetries config - int attempts) + 2
              | AwaitBackoff attempts backoff \<Rightarrow> 2 * nat (maxRetries config - int attempts) + 3))"
    by (auto simp: runScheduledTask_woken_def loop_head_def)
qed

declare run_from.simps [simp del]

definition runScheduledTask ::
  "Config \<Rightarrow> (string \<Rightarrow> bool) \<Rightarrow> real \<Rightarrow> host \<Rightarrow> world \<Rightarrow> outcome \<times> world" where
  "runScheduledTask config V r h w = run_from config V r h (runScheduledTask_enter config V r w)"


subsection \<open>Reading a trace\<close>

definition invocations :: "event list \<Rightarrow> nat" where
  "invocations t = length (filter (\<lambda>e. e = Invoke) t)"

fun sleeps :: "event list \<Rightarrow> real list" where
  "sleeps [] = []"
| "sleeps (Sleep d # t) = d # sleeps t"
| "sleeps (e # t) = sleeps t"

fun lastRunSets :: "event list \<Rightarrow> real list" where
  "lastRunSets [] = []"
| "lastRunSets (SetLastRun d # t) = d # lastRunSets t"
| "lastRunSets (e # t) = lastRunSets t"

text \<open>
  The time at which invocation number \<open>k\<close> of a run that was called at \<open>t0\<close> starts, if
  the run gets that far: every earlier invocation took its time and failed, and was
  followed by its backoff.
\<close>

fun attempt_start :: "Config \<Rightarrow> host \<Rightarrow> real \<Rightarrow> nat \<Rightarrow> real" where
  "attempt_start config h t0 0 = t0"
| "attempt_start config h t0 (Suc k) =
     attempt_start config h t0 k + takes h k + backoffBase config * of_nat (Suc k) + late h (Suc k)"

subsection \<open>Several calls in one program\<close>

text \<open>
  The scheduler lives in a single-threaded program. Its state changes only with a call of
  \<open>runScheduledTask\<close> (from the cron job or from \<open>triggerNow\<close>, at any time), with a
  pending call going on from its \<open>await\<close> when the task settles or the timer fires, and
  with \<open>start\<close> and \<open>stop\<close>; in between the clock moves. \<open>firings\<close> holds the place of
  every call made so far.
\<close>

record system =
  state :: world
  firings :: "place list"

definition initial :: "real \<Rightarrow> system" where
  "initial t0 = \<lparr>state = \<lparr>eng = constructed, clock = t0, trace = []\<rparr>, firings = []\<rparr>"

inductive step :: "Config \<Rightarrow> (string \<Rightarrow> bool) \<Rightarrow> system \<Rightarrow> system \<Rightarrow> bool"
  for config :: Config and V :: "string \<Rightarrow> bool" where
  fire:
    "runScheduledTask_enter config V r (state s) = (pl, w) \<Longrightarrow>
     step config V s \<lparr>state = w, firings = firings s @ [pl]\<rparr>"
| settle:
    "i < length (firings s) \<Longrightarrow> firings s ! i = AwaitTask attempts \<Longrightarrow>
     runScheduledTask_settled config V r attempts settled (state s) = (pl, w) \<Longrightarrow>
     step config V s \<lparr>state = w, firings = (firings s)[i := pl]\<rparr>"
| wake:
    "i < length (firings s) \<Longrightarrow> firings s ! i = AwaitBackoff attempts backoff \<Longrightarrow>
     runScheduledTask_woken config V r attempts (state s) = (pl, w) \<Longrightarrow>
     step config V s \<lparr>state = w, firings = (firings s)[i := pl]\<rparr>"
| tick:
    "0 \<le> d \<Longrightarrow>
     step config V s (s\<lparr>state := (state s)\<lparr>clock := clock (state s) + d\<rparr>\<rparr>)"
| started:
    "start config V r (eng (state s)) = (ok, e) \<Longrightarrow>
     step config V s (s\<lparr>state := (state s)\<lparr>eng := e\<rparr>\<rparr>)"
| stopped:
    "step config V s (s\<lparr>state := (state s)\<lparr>eng := stop (eng (state s))\<rparr>\<rparr>)"

definition reachable :: "Config \<Rightarrow> (string \<Rightarrow> bool) \<Rightarrow> system \<Rightarrow> bool" where
  "reachable config V s \<longleftrightarrow> (\<exists>t0. (step config V)\<^sup>*\<^sup>* (initial t0) s)"

text \<open>A call is in progress while it waits for the task or for a backoff.\<close>

fun in_progress :: "place \<Rightarrow> bool" where
  "in_progress (AwaitTask attempts) = True"
| "in_progress (AwaitBackoff attempts backoff) = True"
| "in_progress (Returned out) = False"

section \<open>The backoff policy in the words of the specification\<close>

text \<open>
  Section 4.3: the nominal delay is \<open>baseDelay * multiplier^(attemptIndex-1)\<close>, clamped to
  \<open>maxDelay\<close>; the actual delay is \<open>nominal * (1 + U)\<close> with \<open>U\<close> drawn from
  \<open>[-jitterFraction, +jitterFraction]\<close>, clamped again to \<open>[0, maxDelay]\<close>.
\<close>

definition spec_delayFor :: "nat \<Rightarrow> NumericPolicy \<Rightarrow> real \<Rightarrow> real" where
  "spec_delayFor attemptIndex policy U =
     (let nominal = min (maxDelay policy) (baseDelay policy * multiplier policy ^ (attemptIndex - 1))
      in max 0 (min (maxDelay policy) (nominal * (1 + U))))"

text \<open>
  What a run that was called at \<open>t0\<close> adds to the trace after the failure of invocation
  number \<open>a\<close> and up to the start of invocation number \<open>n - 1\<close>: for each of the
  invocations in between its backoff, the assignment to \<open>lastRunTime\<close> and the call.
\<close>

definition script :: "Config \<Rightarrow> host \<Rightarrow> real \<Rightarrow> nat \<Rightarrow> nat \<Rightarrow> event list" where
  "script config h t0 a n =
     concat (map (\<lambda>k. [Sleep (backoffBase config * of_nat k),
                       SetLastRun (attempt_start config h t0 k), Invoke]) [a + 1 ..< n])"

text \<open>
  A \<open>time\<close> that the schedule resolution rejects: the trimmed string does not match the
  regular expression, or the hour or the minute is out of range.
\<close>

definition malformed :: "string \<Rightarrow> bool" where
  "malformed t =
     (case timeMatch (trim t) of
        None \<Rightarrow> True
      | Some (g1, g2) \<Rightarrow>
          \<not> (parseInt g1 \<ge> 0 \<and> parseInt g1 \<le> 23 \<and> parseInt g2 \<ge> 0 \<and> parseInt g2 \<le> 59))"

text \<open>A field that \<open>Number.isFinite\<close> rejects: absent, \<open>NaN\<close> or infinite.\<close>

fun not_finite :: "number option \<Rightarrow> bool" where
  "not_finite (Some (Num x)) = False"
| "not_finite v = True"

text \<open>
  The overlap guard does its work in a state of the program when at most one call is in
  progress, and \<open>isRunning\<close> is set exactly when one is.
\<close>

definition guarded :: "system \<Rightarrow> bool" where
  "guarded s \<longleftrightarrow>
     (\<forall>i j. i < length (firings s) \<and> j < length (firings s)
            \<and> in_progress (firings s ! i) \<and> in_progress (firings s ! j) \<longrightarrow> i = j)
     \<and> (isRunning (eng (state s)) \<longleftrightarrow> (\<exists>i < length (firings s). in_progress (firings s ! i)))"

section \<open>Concrete inputs\<close>

text \<open>A function that throws an \<open>Error\<close> at every invocation, and a constant random source.\<close>

definition always_fails :: "nat \<Rightarrow> thrown + unit" where
  "always_fails k = Inl (Err ''boom'')"

definition half :: "nat \<Rightarrow> real" where
  "half k = 1 / 2"

text \<open>
  A function that first times out and then throws the string \<open>not found\<close>, and a predicate
  that lets only \<open>Error\<close> instances be retried.
\<close>

definition timeout_then_not_found :: "nat \<Rightarrow> thrown + unit" where
  "timeout_then_not_found k = (if k = 0 then Inl (Err ''timeout'') else Inl (NonError ''not found''))"

fun is_Error :: "thrown \<Rightarrow> bool" where
  "is_Error (Err m) = True"
| "is_Error (NonError s) = False"

text \<open>A policy whose first delay is above its cap, and one with a delay of half a millisecond.\<close>

definition capped_low :: NumericPolicy where
  "capped_low = \<lparr>maxAttempts = 3, baseDelay = 100, maxDelay = 50, multiplier = 2, jitter = 0.2\<rparr>"

definition half_millisecond :: NumericPolicy where
  "half_millisecond = \<lparr>maxAttempts = 3, baseDelay = 1 / 2, maxDelay = 10, multiplier = 1, jitter = 0\<rparr>"

text \<open>
  A configuration without a \<open>scheduling\<close> and a \<open>crashRecovery\<close> section, and one that allows
  three restarts; a cron library that accepts every expression; a task that fails every
  time and one that fails once, each invocation taking half a second; an engine that was
  constructed and never started, at time 1000.
\<close>

definition no_sections :: Config where
  "no_sections = \<lparr>scheduling = None, crashRecovery = None\<rparr>"

definition three_restarts :: Config where
  "three_restarts =
     \<lparr>scheduling = None, crashRecovery = Some \<lparr>maxRestarts = Some 3, backoffBaseMs = None\<rparr>\<rparr>"

definition accept_all :: "string \<Rightarrow> bool" where
  "accept_all expr = True"

definition failing_task :: host where
  "failing_task = \<lparr>settles = (\<lambda>k. Some (Err ''boom'')), takes = (\<lambda>k. 500), late = (\<lambda>k. 0)\<rparr>"

definition fails_once :: host where
  "fails_once =
     \<lparr>settles = (\<lambda>k. if k = 0 then Some (Err ''boom'') else None), takes = (\<lambda>k. 500), late = (\<lambda>k. 0)\<rparr>"

definition never_started :: world where
  "never_started = \<lparr>eng = constructed, clock = 1000, trace = []\<rparr>"

text \<open>The default policy with four attempts, and an engine in the middle of a run.\<close>

definition four_attempts :: NumericPolicy where
  "four_attempts = def\<lparr>maxAttempts := 4\<rparr>"

definition busy :: world where
  "busy = \<lparr>eng = constructed\<lparr>isRunning := True\<rparr>, clock = 1000, trace = []\<rparr>"

text \<open>
  Jitter with the window of 20 minutes before and 30 minutes after; schedules for ten past
  midnight, for an hour that does not exist and for an empty \<open>time\<close>, the last two beside a
  legacy cron expression.
\<close>

definition window_20_30 :: jitter_options where
  "window_20_30 =
     \<lparr>jitter_options.enabled = Some True, minMinutesBefore = Some (Num 20), maxMinutesAfter = Some (Num 30)\<rparr>"

definition ten_past_midnight :: scheduling where
  "ten_past_midnight =
     \<lparr>scheduling.enabled = Some True, time = Some ''00:10'', cron_schedule = None,
      jitter = Some window_20_30\<rparr>"

definition hour_24 :: scheduling where
  "hour_24 =
     \<lparr>scheduling.enabled = Some True, time = Some ''24:00'', cron_schedule = Some ''0 5 * * *'',
      jitter = None\<rparr>"

definition empty_time :: scheduling where
  "empty_time =
     \<lparr>scheduling.enabled = Some True, time = Some [], cron_schedule = Some ''0 5 * * *'',
      jitter = None\<rparr>"

definition only_enabled :: jitter_options where
  "only_enabled =
     \<lparr>jitter_options.enabled = Some True, minMinutesBefore = None, maxMinutesAfter = Some NaN\<rparr>"

text \<open>
  The program after a first firing at time 1000 under the configuration without sections,
  and after the first attempt of that firing has failed: the call waits for its backoff.
\<close>

definition first_attempt :: system where
  "first_attempt =
     \<lparr>state = \<lparr>eng = \<lparr>cronJob = None, isRunning = True, lastRunTime = Some 1000,
                      lastCronExpression = None\<rparr>,
               clock = 1000, trace = [SetLastRun 1000, Invoke]\<rparr>,
      firings = [AwaitTask 0]\<rparr>"

definition backing_off :: system where
  "backing_off =
     \<lparr>state = \<lparr>eng = \<lparr>cronJob = None, isRunning = True, lastRunTime = Some 1000,
                      lastCronExpression = None\<rparr>,
               clock = 1000, trace = [SetLastRun 1000, Invoke, Sleep 2000]\<rparr>,
      firings = [AwaitBackoff 1 2000]\<rparr>"

text \<open>
  A task that succeeds at its first invocation; a configuration that enables the scheduler
  for nine o'clock without jitter; and one whose \<open>maxRestarts\<close> is \<open>-1\<close>.
\<close>

definition succeeds_at_once :: host where
  "succeeds_at_once = \<lparr>settles = (\<lambda>k. None), takes = (\<lambda>k. 500), late = (\<lambda>k. 0)\<rparr>"



section \<open>Retry.run: unfolding the loop\<close>

lemma run_loop_exit:
  "\<not> int a < maxAttempts p \<Longrightarrow>
   run_loop p fn isR random a d l sl = \<lparr>result = Inl (toError l), calls = a, waits = sl\<rparr>"
  by (subst run_loop.simps) simp

lemma run_loop_return:
  "int a < maxAttempts p \<Longrightarrow> fn a = Inr v \<Longrightarrow>
   run_loop p fn isR random a d l sl = \<lparr>result = Inr v, calls = a + 1, waits = sl\<rparr>"
  by (subst run_loop.simps) simp

lemma run_loop_break:
  "int a < maxAttempts p \<Longrightarrow> fn a = Inl e \<Longrightarrow> \<not> retryable isR e \<or> maxAttempts p \<le> int a + 1 \<Longrightarrow>
   run_loop p fn isR random a d l sl = \<lparr>result = Inl (toError e), calls = a + 1, waits = sl\<rparr>"
  by (subst run_loop.simps) (auto simp: retryable_def Let_def)

lemma run_loop_again:
  "int a + 1 < maxAttempts p \<Longrightarrow> fn a = Inl e \<Longrightarrow> retryable isR e \<Longrightarrow>
   run_loop p fn isR random a d l sl =
   run_loop p fn isR random (a + 1) (next_delay p d) e (sl @ [(d, sleep_of p d (random a))])"
  by (subst run_loop.simps) (simp add: retryable_def Let_def sleep_of_def next_delay_def)

lemma run_loop_cases:
  obtains (exit) "\<not> int a < maxAttempts p"
  | (return) v where "int a < maxAttempts p" "fn a = Inr v"
  | (break) e where "int a < maxAttempts p" "fn a = Inl e" "\<not> retryable isR e \<or> maxAttempts p \<le> int a + 1"
  | (again) e where "int a + 1 < maxAttempts p" "fn a = Inl e" "retryable isR e"
  by (cases "fn a") force+

lemma sleep_of_bounds: "0 \<le> maxDelay p \<Longrightarrow> 0 \<le> sleep_of p d r \<and> sleep_of p d r \<le> maxDelay p"
  by (simp add: sleep_of_def)

lemma run_loop_sleep_bounds:
  "0 \<le> maxDelay p \<Longrightarrow> (\<forall>x\<in>set sl. 0 \<le> snd x \<and> snd x \<le> maxDelay p) \<Longrightarrow>
   \<forall>x\<in>set (waits (run_loop p fn isR random a d l sl)). 0 \<le> snd x \<and> snd x \<le> maxDelay p"
proof (induction "nat (maxAttempts p - int a)" arbitrary: a d l sl)
  case 0
  then show ?case by (simp add: run_loop_exit)
next
  case (Suc n)
  show ?case
  proof (cases rule: run_loop_cases[where a=a and p=p and fn=fn and isR=isR])
    case exit
    then show ?thesis using Suc.prems by (simp add: run_loop_exit)
  next
    case (return v)
    then show ?thesis using Suc.prems by (simp add: run_loop_return)
  next
    case (break e)
    then show ?thesis using Suc.prems by (simp add: run_loop_break)
  next
    case (again e)
    have n: "n = nat (maxAttempts p - int (a + 1))" using Suc.hyps(2) by simp
    have b: "\<forall>x\<in>set (sl @ [(d, sleep_of p d (random a))]). 0 \<le> snd x \<and> snd x \<le> maxDelay p"
      using Suc.prems sleep_of_bounds[of p d "random a"] by auto
    show ?thesis
      unfolding run_loop_again[where fn=fn and a=a, OF again]
      by (rule Suc.hyps(1)[OF n Suc.prems(1) b])
  qed
qed

lemma floor_mult_ge:
  assumes "d \<in> \<int>" "0 \<le> d" "1 \<le> (m::real)"
  shows "d \<le> of_int \<lfloor>d * m\<rfloor>"
proof -
  from assms(1) obtain z where z: "d = of_int z" by (auto elim: Ints_cases)
  have "d * 1 \<le> d * m" using assms by (intro mult_left_mono) auto
  then have "of_int z \<le> d * m" using z by simp
  then have "z \<le> \<lfloor>d * m\<rfloor>" by (simp add: le_floor_iff)
  then show ?thesis using z by simp
qed

lemma next_delay_keeps:
  assumes "1 \<le> multiplier p" and "0 \<le> d" and "d \<le> maxDelay p"
    and "d \<le> of_int \<lfloor>d * multiplier p\<rfloor>"
  shows "d \<le> next_delay p d" and "next_delay p d \<le> maxDelay p"
    and "next_delay p d \<le> of_int \<lfloor>next_delay p d * multiplier p\<rfloor>"
proof -
  have m0: "multiplier p \<noteq> 0" using assms(1) by auto
  have nd: "next_delay p d = min (maxDelay p) (of_int \<lfloor>d * multiplier p\<rfloor>)"
    using m0 by (simp add: next_delay_def)
  show "d \<le> next_delay p d" unfolding nd using assms(3,4) by simp
  show "next_delay p d \<le> maxDelay p" unfolding nd by simp
  show "next_delay p d \<le> of_int \<lfloor>next_delay p d * multiplier p\<rfloor>"
  proof (cases "of_int \<lfloor>d * multiplier p\<rfloor> \<le> maxDelay p")
    case True
    then have eq: "next_delay p d = of_int \<lfloor>d * multiplier p\<rfloor>" unfolding nd by simp
    have z: "(0::real) \<le> of_int \<lfloor>d * multiplier p\<rfloor>" using assms(2,4) by linarith
    have "(of_int \<lfloor>d * multiplier p\<rfloor> :: real) \<in> \<int>" by simp
    from floor_mult_ge[OF this z assms(1)] show ?thesis unfolding eq .
  next
    case False
    then have eq: "next_delay p d = maxDelay p" unfolding nd by simp
    have "d * multiplier p \<le> maxDelay p * multiplier p"
      using assms(1,3) by (intro mult_right_mono) simp_all
    then have "\<lfloor>d * multiplier p\<rfloor> \<le> \<lfloor>maxDelay p * multiplier p\<rfloor>" by (rule floor_mono)
    then have "(of_int \<lfloor>d * multiplier p\<rfloor> :: real) \<le> of_int \<lfloor>maxDelay p * multiplier p\<rfloor>"
      by simp
    with False show ?thesis unfolding eq by linarith
  qed
qed

lemma run_loop_waits_sorted:
  "1 \<le> multiplier p \<Longrightarrow> 0 \<le> d \<Longrightarrow> d \<le> maxDelay p \<Longrightarrow> d \<le> of_int \<lfloor>d * multiplier p\<rfloor> \<Longrightarrow>
   sorted (map fst sl) \<Longrightarrow> (\<forall>x\<in>set sl. fst x \<le> d) \<Longrightarrow>
   sorted (map fst (waits (run_loop p fn isR random a d l sl)))"
proof (induction "nat (maxAttempts p - int a)" arbitrary: a d l sl)
  case 0
  then show ?case by (simp add: run_loop_exit)
next
  case (Suc n)
  show ?case
  proof (cases rule: run_loop_cases[where a=a and p=p and fn=fn and isR=isR])
    case exit
    then show ?thesis using Suc.prems by (simp add: run_loop_exit)
  next
    case (return v)
    then show ?thesis using Suc.prems by (simp add: run_loop_return)
  next
    case (break e)
    then show ?thesis using Suc.prems by (simp add: run_loop_break)
  next
    case (again e)
    note nd = next_delay_keeps[OF Suc.prems(1-4)]
    have n: "n = nat (maxAttempts p - int (a + 1))" using Suc.hyps(2) by simp
    have s: "sorted (map fst (sl @ [(d, sleep_of p d (random a))]))"
      using Suc.prems(5,6) by (auto simp: sorted_append)
    have b: "\<forall>x\<in>set (sl @ [(d, sleep_of p d (random a))]). fst x \<le> next_delay p d"
      using Suc.prems(6) nd(1) by fastforce
    have "0 \<le> next_delay p d" using nd(1) Suc.prems(2) by linarith
    then show ?thesis
      unfolding run_loop_again[where fn=fn and a=a, OF again]
      by (rule Suc.hyps(1)[OF n Suc.prems(1) _ nd(2) nd(3) s b])
  qed
qed

lemma run_loop_waits_prefix:
  "\<exists>rest. waits (run_loop p fn isR random a d l sl) = sl @ rest"
proof (induction "nat (maxAttempts p - int a)" arbitrary: a d l sl)
  case 0
  then show ?case by (simp add: run_loop_exit)
next
  case (Suc n)
  show ?case
  proof (cases rule: run_loop_cases[where a=a and p=p and fn=fn and isR=isR])
    case exit
    then show ?thesis by (simp add: run_loop_exit)
  next
    case (return v)
    then show ?thesis by (simp add: run_loop_return)
  next
    case (break e)
    then show ?thesis by (simp add: run_loop_break)
  next
    case (again e)
    have n: "n = nat (maxAttempts p - int (a + 1))" using Suc.hyps(2) by simp
    from Suc.hyps(1)[OF n, of "next_delay p d" e "sl @ [(d, sleep_of p d (random a))]"]
    obtain rest where "waits (run_loop p fn isR random (a + 1) (next_delay p d) e
                         (sl @ [(d, sleep_of p d (random a))]))
                       = (sl @ [(d, sleep_of p d (random a))]) @ rest" by blast
    then show ?thesis
      unfolding run_loop_again[where fn=fn and a=a, OF again] by simp
  qed
qed

lemma run_loop_first_waits:
  "waits (run_loop p fn isR random a d l sl) = sl
   \<or> (\<exists>s. waits (run_loop p fn isR random a d l sl) = sl @ [(d, s)])
   \<or> (\<exists>s s' rest. waits (run_loop p fn isR random a d l sl)
                      = sl @ (d, s) # (next_delay p d, s') # rest)"
proof (cases rule: run_loop_cases[where a=a and p=p and fn=fn and isR=isR])
  case exit
  then show ?thesis by (simp add: run_loop_exit)
next
  case (return v)
  then show ?thesis by (simp add: run_loop_return)
next
  case (break e)
  then show ?thesis by (simp add: run_loop_break)
next
  case (again e)
  let ?sl = "sl @ [(d, sleep_of p d (random a))]"
  let ?d = "next_delay p d"
  have step: "run_loop p fn isR random a d l sl = run_loop p fn isR random (a + 1) ?d e ?sl"
    by (rule run_loop_again[where fn=fn and a=a, OF again])
  show ?thesis
  proof (cases rule: run_loop_cases[where a="a + 1" and p=p and fn=fn and isR=isR])
    case exit
    then show ?thesis unfolding step by (simp add: run_loop_exit)
  next
    case (return v)
    then show ?thesis unfolding step by (simp add: run_loop_return)
  next
    case (break e')
    then show ?thesis unfolding step by (simp add: run_loop_break)
  next
    case again2: (again e')
    let ?sl2 = "?sl @ [(?d, sleep_of p ?d (random (a + 1)))]"
    have step2: "run_loop p fn isR random (a + 1) ?d e ?sl
                   = run_loop p fn isR random (a + 1 + 1) (next_delay p ?d) e' ?sl2"
      by (rule run_loop_again[where fn=fn and a="a + 1", OF again2])
    from run_loop_waits_prefix[of p fn isR random "a + 1 + 1" "next_delay p ?d" e' ?sl2]
    obtain rest where "waits (run_loop p fn isR random (a + 1 + 1) (next_delay p ?d) e' ?sl2)
                         = ?sl2 @ rest" by blast
    then show ?thesis unfolding step step2 by simp
  qed
qed

lemma run_loop_all_fail:
  assumes "\<forall>i. fn i = Inl (errs i)" "\<forall>i. retryable isR (errs i)"
  shows "int a < maxAttempts p \<Longrightarrow>
         result (run_loop p fn isR random a d l sl) = Inl (toError (errs (nat (maxAttempts p) - 1)))
         \<and> calls (run_loop p fn isR random a d l sl) = nat (maxAttempts p)
         \<and> length (waits (run_loop p fn isR random a d l sl)) = length sl + (nat (maxAttempts p) - 1 - a)"
proof (induction "nat (maxAttempts p - int a)" arbitrary: a d l sl)
  case 0
  then show ?case by simp
next
  case (Suc n)
  have fa: "fn a = Inl (errs a)" using assms(1) by simp
  show ?case
  proof (cases "maxAttempts p \<le> int a + 1")
    case True
    then have "nat (maxAttempts p) - 1 = a" "nat (maxAttempts p) = a + 1"
      using Suc.prems by linarith+
    then show ?thesis
      using True by (simp add: run_loop_break[where fn=fn and a=a, OF Suc.prems fa])
  next
    case False
    then have lt: "int a + 1 < maxAttempts p" by simp
    have n: "n = nat (maxAttempts p - int (a + 1))" using Suc.hyps(2) by simp
    have r: "retryable isR (errs a)" using assms(2) by simp
    have "int (a + 1) < maxAttempts p" using lt by simp
    from Suc.hyps(1)[OF n this] lt show ?thesis
      by (auto simp: run_loop_again[where fn=fn and a=a, OF lt fa r])
  qed
qed

lemma run_loop_not_retryable:
  assumes "fn k = Inl e" "\<not> f e" "int k < maxAttempts p"
    and "\<forall>i<k. \<exists>e'. fn i = Inl e' \<and> f e'"
  shows "a \<le> k \<Longrightarrow>
         result (run_loop p fn (Some f) random a d l sl) = Inl (toError e)
         \<and> calls (run_loop p fn (Some f) random a d l sl) = k + 1
         \<and> length (waits (run_loop p fn (Some f) random a d l sl)) = length sl + (k - a)"
proof (induction "k - a" arbitrary: a d l sl)
  case 0
  then have "a = k" by simp
  moreover have "\<not> retryable (Some f) e" using assms(2) by (simp add: retryable_def)
  ultimately show ?case
    using run_loop_break[where fn=fn and a=k and isR="Some f", OF assms(3,1)] by simp
next
  case (Suc n)
  then have ak: "a < k" by simp
  then obtain e' where e': "fn a = Inl e'" "f e'" using assms(4) by blast
  have lt: "int a + 1 < maxAttempts p" using ak assms(3) by simp
  have r: "retryable (Some f) e'" using e'(2) by (simp add: retryable_def)
  have "n = k - (a + 1)" using Suc.hyps(2) by simp
  from Suc.hyps(1)[OF this] ak show ?case
    by (auto simp: run_loop_again[where fn=fn and a=a, OF lt e'(1) r])
qed

section \<open>Retry.run: the claims\<close>

text \<open>
  C6, as amended. For every valid policy with \<open>baseDelay \<le> maxDelay\<close> whose \<open>baseDelay\<close> does
  not lose by the rounding of the first step, \<open>floor(baseDelay * multiplier) \<ge> baseDelay\<close>, as
  is the case for every whole number of milliseconds, the delay before jitter (the
  variable \<open>delay\<close> at each backoff) never decreases from one attempt to the next. As soon
  as two backoffs are awaited these two conditions are also necessary. And for every valid
  policy, every delay actually awaited lies in \<open>[0, maxDelay]\<close>.
\<close>

theorem Retry_delay_monotone_and_bounded:
  assumes "valid_policy p"
  shows "(baseDelay p \<le> maxDelay p \<and> baseDelay p \<le> of_int \<lfloor>baseDelay p * multiplier p\<rfloor>
            \<longrightarrow> sorted (map fst (waits (run p fn isRetryable random))))
         \<and> (baseDelay p \<in> \<int> \<longrightarrow> baseDelay p \<le> of_int \<lfloor>baseDelay p * multiplier p\<rfloor>)
         \<and> (2 \<le> length (waits (run p fn isRetryable random))
              \<and> sorted (map fst (waits (run p fn isRetryable random)))
            \<longrightarrow> baseDelay p \<le> maxDelay p \<and> baseDelay p \<le> of_int \<lfloor>baseDelay p * multiplier p\<rfloor>)
         \<and> (\<forall>w \<in> set (waits (run p fn isRetryable random)). 0 \<le> snd w \<and> snd w \<le> maxDelay p)"
proof (intro conjI impI)
  assume a: "baseDelay p \<le> maxDelay p \<and> baseDelay p \<le> of_int \<lfloor>baseDelay p * multiplier p\<rfloor>"
  show "sorted (map fst (waits (run p fn isRetryable random)))"
    unfolding run_def using assms a
    by (intro run_loop_waits_sorted) (simp_all add: valid_policy_def)
next
  assume "baseDelay p \<in> \<int>"
  then show "baseDelay p \<le> of_int \<lfloor>baseDelay p * multiplier p\<rfloor>"
    using assms by (intro floor_mult_ge) (simp_all add: valid_policy_def)
next
  assume b: "2 \<le> length (waits (run p fn isRetryable random))
              \<and> sorted (map fst (waits (run p fn isRetryable random)))"
  have m0: "multiplier p \<noteq> 0" using assms by (auto simp: valid_policy_def)
  from run_loop_first_waits[of p fn isRetryable random 0 "baseDelay p" undefined_value "[]"] b
  obtain s s' rest where w: "waits (run p fn isRetryable random)
                               = (baseDelay p, s) # (next_delay p (baseDelay p), s') # rest"
    unfolding run_def by auto
  from b have "baseDelay p \<le> next_delay p (baseDelay p)" unfolding w by simp
  then show "baseDelay p \<le> maxDelay p"
    and "baseDelay p \<le> of_int \<lfloor>baseDelay p * multiplier p\<rfloor>"
    using m0 by (simp_all add: next_delay_def)
next
  show "\<forall>w \<in> set (waits (run p fn isRetryable random)). 0 \<le> snd w \<and> snd w \<le> maxDelay p"
    unfolding run_def using assms
    by (intro run_loop_sleep_bounds) (simp_all add: valid_policy_def)
qed

lemma waits_def_always_fails:
  "waits (run def always_fails None half) = [(1000, 1000), (2000, 2000)]"
  by (simp add: run_def run_loop.simps def_def always_fails_def half_def)

theorem Retry_delay_monotone_and_bounded_witness:
  "valid_policy def \<and> baseDelay def \<le> maxDelay def \<and> baseDelay def \<in> \<int>
   \<and> baseDelay def \<le> of_int \<lfloor>baseDelay def * multiplier def\<rfloor>
   \<and> waits (run def always_fails None half) = [(1000, 1000), (2000, 2000)]
   \<and> 2 \<le> length (waits (run def always_fails None half))
   \<and> sorted (map fst (waits (run def always_fails None half)))
   \<and> list_all (\<lambda>w. 0 \<le> snd w \<and> snd w \<le> 30000) (waits (run def always_fails None half))"
proof -
  have v: "valid_policy def" by (simp add: valid_policy_def def_def)
  have h: "baseDelay def \<le> maxDelay def \<and> baseDelay def \<in> \<int>
           \<and> baseDelay def \<le> of_int \<lfloor>baseDelay def * multiplier def\<rfloor>"
    by (simp add: def_def)
  have m: "maxDelay def = 30000" by (simp add: def_def)
  show ?thesis
    using v h Retry_delay_monotone_and_bounded[OF v, of always_fails None half]
      waits_def_always_fails
    unfolding m by (simp add: list_all_iff)
qed

text \<open>
  C6 as stated fails. The policy \<open>baseDelay = 100\<close>, \<open>maxDelay = 50\<close>, \<open>multiplier = 2\<close>,
  \<open>jitter = 0.2\<close> is valid, and with a function that fails three times the delay before
  jitter is 100 at the first backoff and 50 at the second: the first value of \<open>delay\<close> is
  \<open>baseDelay\<close> as it is, only the later ones are capped. And with \<open>baseDelay = 0.5\<close>,
  \<open>maxDelay = 10\<close>, \<open>multiplier = 1\<close> the delay goes from 0.5 to 0, because every later value
  is rounded down.
\<close>

theorem Retry_delay_decreases:
  "valid_policy capped_low
   \<and> map fst (waits (run capped_low always_fails None half)) = [100, 50]
   \<and> \<not> sorted (map fst (waits (run capped_low always_fails None half)))
   \<and> valid_policy half_millisecond
   \<and> map fst (waits (run half_millisecond always_fails None half)) = [1 / 2, 0]
   \<and> \<not> sorted (map fst (waits (run half_millisecond always_fails None half)))"
proof -
  have 1: "map fst (waits (run capped_low always_fails None half)) = [100, 50]"
    by (simp add: capped_low_def run_def run_loop.simps always_fails_def half_def)
  have 2: "map fst (waits (run half_millisecond always_fails None half)) = [1 / 2, 0]"
    by (simp add: half_millisecond_def run_def run_loop.simps always_fails_def half_def)
  have 3: "valid_policy capped_low" "valid_policy half_millisecond"
    by (simp_all add: valid_policy_def capped_low_def half_millisecond_def)
  show ?thesis unfolding 1 2 using 3 by simp
qed

text \<open>
  C10. When \<open>Retry.run\<close> is given a predicate \<open>isRetryable\<close> and invocation number \<open>k\<close>
  (after \<open>k\<close> failures that were retried) fails with an error \<open>e\<close> that the predicate
  rejects, the call throws \<open>e\<close>, wrapped in an \<open>Error\<close> if it was not one; that invocation
  was the last, and no backoff was awaited after it: there are as many backoffs as
  earlier failures.
\<close>

theorem Retry_not_retryable_exits:
  assumes "int k < maxAttempts p" and "fn k = Inl e" and "\<not> f e"
    and "\<forall>i<k. \<exists>e'. fn i = Inl e' \<and> f e'"
  shows "result (run p fn (Some f) random) = Inl (toError e)
         \<and> calls (run p fn (Some f) random) = k + 1
         \<and> length (waits (run p fn (Some f) random)) = k"
  using run_loop_not_retryable[where a = 0, OF assms(2,3,1,4)]
  unfolding run_def by simp

theorem Retry_not_retryable_exits_witness:
  "result (run def timeout_then_not_found (Some is_Error) half) = Inl (Err ''not found'')
   \<and> calls (run def timeout_then_not_found (Some is_Error) half) = 2
   \<and> length (waits (run def timeout_then_not_found (Some is_Error) half)) = 1"
proof -
  have 1: "int 1 < maxAttempts def" by (simp add: def_def)
  have 2: "timeout_then_not_found 1 = Inl (NonError ''not found'')"
    by (simp add: timeout_then_not_found_def)
  have 3: "\<not> is_Error (NonError ''not found'')" by simp
  have 4: "\<forall>i<1. \<exists>e'. timeout_then_not_found i = Inl e' \<and> is_Error e'"
    by (simp add: timeout_then_not_found_def)
  show ?thesis
    using Retry_not_retryable_exits[OF 1 2 3 4, of half] by simp
qed

section \<open>runScheduledTask: unfolding one run\<close>

lemma rescheduleWithJitter_isRunning [simp]:
  "isRunning (rescheduleWithJitter config V r e) = isRunning e"
  by (simp add: rescheduleWithJitter_def Let_def split: option.splits)

lemma rescheduleWithJitter_lastRunTime [simp]:
  "lastRunTime (rescheduleWithJitter config V r e) = lastRunTime e"
  by (simp add: rescheduleWithJitter_def Let_def split: option.splits)

lemma run_from_success:
  "settles h a = None \<Longrightarrow>
   run_from config V r h (AwaitTask a, w) =
     (Succeeded (Suc a),
      w\<lparr>eng := (rescheduleWithJitter config V r (eng w))\<lparr>isRunning := False\<rparr>,
        clock := clock w + takes h a,
        trace := trace w @ [Reschedule]\<rparr>)"
  by (simp add: run_from.simps runScheduledTask_settled_def)

lemma run_from_retry:
  assumes "settles h a = Some e" and "int a + 1 \<le> maxRetries config"
  shows "run_from config V r h (AwaitTask a, w) =
   run_from config V r h
     (AwaitTask (Suc a),
      w\<lparr>eng := (eng w)\<lparr>isRunning := True,
                       lastRunTime := Some (clock w + takes h a + backoffBase config * of_nat (Suc a)
                                              + late h (Suc a))\<rparr>,
        clock := clock w + takes h a + backoffBase config * of_nat (Suc a) + late h (Suc a),
        trace := trace w @ [Sleep (backoffBase config * of_nat (Suc a)),
                            SetLastRun (clock w + takes h a + backoffBase config * of_nat (Suc a)
                                          + late h (Suc a)),
                            Invoke]\<rparr>)"
proof -
  let ?b = "backoffBase config * of_nat (Suc a)"
  let ?w1 = "w\<lparr>clock := clock w + takes h a\<rparr>"
  let ?w2 = "?w1\<lparr>trace := trace ?w1 @ [Sleep ?b]\<rparr>"
  let ?w3 = "?w2\<lparr>clock := clock ?w2 + ?b + late h (Suc a)\<rparr>"
  have s: "runScheduledTask_settled config V r a (settles h a) ?w1 = (AwaitBackoff (Suc a) ?b, ?w2)"
    using assms by (simp add: runScheduledTask_settled_def Let_def)
  have k: "runScheduledTask_woken config V r (Suc a) ?w3 =
             (AwaitTask (Suc a),
              ?w3\<lparr>eng := (eng ?w3)\<lparr>isRunning := True, lastRunTime := Some (clock ?w3)\<rparr>,
                   trace := trace ?w3 @ [SetLastRun (clock ?w3), Invoke]\<rparr>)"
    using assms by (simp add: runScheduledTask_woken_def loop_head_def)
  have "run_from config V r h (AwaitTask a, w) = run_from config V r h (AwaitBackoff (Suc a) ?b, ?w2)"
    by (simp only: run_from.simps(2) s)
  also have "\<dots> = run_from config V r h (runScheduledTask_woken config V r (Suc a) ?w3)"
    by (simp only: run_from.simps(3))
  also have "\<dots> = run_from config V r h
                      (AwaitTask (Suc a),
                       ?w3\<lparr>eng := (eng ?w3)\<lparr>isRunning := True, lastRunTime := Some (clock ?w3)\<rparr>,
                            trace := trace ?w3 @ [SetLastRun (clock ?w3), Invoke]\<rparr>)"
    by (simp only: k)
  finally show ?thesis by (cases w) simp
qed

lemma run_from_exhausted:
  "settles h a = Some e \<Longrightarrow> \<not> int a + 1 \<le> maxRetries config \<Longrightarrow>
   run_from config V r h (AwaitTask a, w) =
     (Failed (Suc a),
      w\<lparr>eng := rescheduleWithJitter config V r ((eng w)\<lparr>isRunning := False\<rparr>),
        clock := clock w + takes h a,
        trace := trace w @ [Reschedule]\<rparr>)"
  by (simp add: run_from.simps runScheduledTask_settled_def loop_head_def Let_def)

lemma script_empty [simp]: "script config h t0 a (Suc a) = []"
  by (simp add: script_def)

lemma script_step:
  "Suc a < n \<Longrightarrow>
   script config h t0 a n =
     [Sleep (backoffBase config * of_nat (Suc a)), SetLastRun (attempt_start config h t0 (Suc a)), Invoke]
     @ script config h t0 (Suc a) n"
  by (simp add: script_def upt_conv_Cons)

lemma run_from_script:
  assumes "int a \<le> maxRetries config" and "clock w = attempt_start config h t0 a"
  shows "\<exists>n. a < n \<and> int n \<le> maxRetries config + 1
           \<and> (\<forall>k. a \<le> k \<and> k + 1 < n \<longrightarrow> settles h k \<noteq> None)
           \<and> (fst (run_from config V r h (AwaitTask a, w)) = Succeeded n \<and> settles h (n - 1) = None
                \<or> fst (run_from config V r h (AwaitTask a, w)) = Failed n
                   \<and> int n = maxRetries config + 1 \<and> settles h (n - 1) \<noteq> None)
           \<and> trace (snd (run_from config V r h (AwaitTask a, w)))
               = trace w @ script config h t0 a n @ [Reschedule]
           \<and> lastRunTime (eng (snd (run_from config V r h (AwaitTask a, w))))
               = (if n = Suc a then lastRunTime (eng w) else Some (attempt_start config h t0 (n - 1)))
           \<and> \<not> isRunning (eng (snd (run_from config V r h (AwaitTask a, w))))"
  using assms
proof (induction "nat (maxRetries config - int a)" arbitrary: a w)
  case 0
  then have last: "\<not> int a + 1 \<le> maxRetries config" and eq: "int (Suc a) = maxRetries config + 1"
    by linarith+
  show ?case
  proof (cases "settles h a")
    case None
    show ?thesis
      by (rule exI[of _ "Suc a"]) (use None 0 in \<open>auto simp add: run_from_success\<close>)
  next
    case (Some e)
    show ?thesis
      by (rule exI[of _ "Suc a"]) (use Some last eq in \<open>auto simp add: run_from_exhausted\<close>)
  qed
next
  case (Suc m)
  then have more: "int a + 1 \<le> maxRetries config" by linarith
  show ?case
  proof (cases "settles h a")
    case None
    show ?thesis
      by (rule exI[of _ "Suc a"]) (use None Suc.prems in \<open>auto simp add: run_from_success\<close>)
  next
    case (Some e)
    define w' where "w' = w\<lparr>eng := (eng w)\<lparr>isRunning := True,
                       lastRunTime := Some (clock w + takes h a + backoffBase config * of_nat (Suc a)
                                              + late h (Suc a))\<rparr>,
        clock := clock w + takes h a + backoffBase config * of_nat (Suc a) + late h (Suc a),
        trace := trace w @ [Sleep (backoffBase config * of_nat (Suc a)),
                            SetLastRun (clock w + takes h a + backoffBase config * of_nat (Suc a)
                                          + late h (Suc a)),
                            Invoke]\<rparr>"
    have step: "run_from config V r h (AwaitTask a, w) = run_from config V r h (AwaitTask (Suc a), w')"
      unfolding w'_def by (rule run_from_retry[OF Some more])
    have m: "m = nat (maxRetries config - int (Suc a))" using Suc.hyps(2) by simp
    have le: "int (Suc a) \<le> maxRetries config" using more by simp
    have ck: "clock w' = attempt_start config h t0 (Suc a)"
      using Suc.prems(2) by (simp add: w'_def)
    from Suc.hyps(1)[OF m le ck] obtain n where n:
      "Suc a < n" "int n \<le> maxRetries config + 1"
      "\<forall>k. Suc a \<le> k \<and> k + 1 < n \<longrightarrow> settles h k \<noteq> None"
      "fst (run_from config V r h (AwaitTask (Suc a), w')) = Succeeded n \<and> settles h (n - 1) = None
         \<or> fst (run_from config V r h (AwaitTask (Suc a), w')) = Failed n
            \<and> int n = maxRetries config + 1 \<and> settles h (n - 1) \<noteq> None"
      "trace (snd (run_from config V r h (AwaitTask (Suc a), w')))
         = trace w' @ script config h t0 (Suc a) n @ [Reschedule]"
      "lastRunTime (eng (snd (run_from config V r h (AwaitTask (Suc a), w'))))
         = (if n = Suc (Suc a) then lastRunTime (eng w') else Some (attempt_start config h t0 (n - 1)))"
      "\<not> isRunning (eng (snd (run_from config V r h (AwaitTask (Suc a), w'))))"
      by blast
    have all: "\<forall>k. a \<le> k \<and> k + 1 < n \<longrightarrow> settles h k \<noteq> None"
    proof (intro allI impI)
      fix k assume k: "a \<le> k \<and> k + 1 < n"
      show "settles h k \<noteq> None"
      proof (cases "k = a")
        case True then show ?thesis using Some by simp
      next
        case False then show ?thesis using k n(3) by simp
      qed
    qed
    have tr: "trace w' @ script config h t0 (Suc a) n @ [Reschedule]
                = trace w @ script config h t0 a n @ [Reschedule]"
      using script_step[OF n(1), of config h t0] Suc.prems(2) by (simp add: w'_def)
    have lr: "(if n = Suc (Suc a) then lastRunTime (eng w') else Some (attempt_start config h t0 (n - 1)))
                = Some (attempt_start config h t0 (n - 1))"
      using Suc.prems(2) by (auto simp: w'_def)
    show ?thesis
      apply (rule exI[of _ n])
      unfolding step
      using n all tr lr by auto
  qed
qed

lemma runScheduledTask_skipped:
  "isRunning (eng w) \<Longrightarrow>
   runScheduledTask config V r h w = (Skipped, w\<lparr>trace := trace w @ [Skip]\<rparr>)"
  by (simp add: runScheduledTask_def runScheduledTask_enter_def run_from.simps)

lemma runScheduledTask_no_attempt:
  "\<not> isRunning (eng w) \<Longrightarrow> maxRetries config < 0 \<Longrightarrow>
   runScheduledTask config V r h w =
     (Failed 0, w\<lparr>eng := rescheduleWithJitter config V r (eng w), trace := trace w @ [Reschedule]\<rparr>)"
  by (simp add: runScheduledTask_def runScheduledTask_enter_def loop_head_def run_from.simps)

lemma runScheduledTask_script:
  assumes "\<not> isRunning (eng w)" and "0 \<le> maxRetries config"
  shows "\<exists>n. 0 < n \<and> int n \<le> maxRetries config + 1
           \<and> (\<forall>k. k + 1 < n \<longrightarrow> settles h k \<noteq> None)
           \<and> (fst (runScheduledTask config V r h w) = Succeeded n \<and> settles h (n - 1) = None
                \<or> fst (runScheduledTask config V r h w) = Failed n
                   \<and> int n = maxRetries config + 1 \<and> settles h (n - 1) \<noteq> None)
           \<and> trace (snd (runScheduledTask config V r h w))
               = trace w @ [SetLastRun (clock w), Invoke] @ script config h (clock w) 0 n @ [Reschedule]
           \<and> lastRunTime (eng (snd (runScheduledTask config V r h w)))
               = Some (attempt_start config h (clock w) (n - 1))
           \<and> \<not> isRunning (eng (snd (runScheduledTask config V r h w)))"
proof -
  define w' where "w' = w\<lparr>eng := (eng w)\<lparr>isRunning := True, lastRunTime := Some (clock w)\<rparr>,
                          trace := trace w @ [SetLastRun (clock w), Invoke]\<rparr>"
  have run: "runScheduledTask config V r h w = run_from config V r h (AwaitTask 0, w')"
    using assms by (simp add: runScheduledTask_def runScheduledTask_enter_def loop_head_def w'_def)
  have le: "int 0 \<le> maxRetries config" using assms(2) by simp
  have ck: "clock w' = attempt_start config h (clock w) 0" by (simp add: w'_def)
  have tr: "trace w' = trace w @ [SetLastRun (clock w), Invoke]" by (simp add: w'_def)
  have lr: "lastRunTime (eng w') = Some (attempt_start config h (clock w) 0)" by (simp add: w'_def)
  show ?thesis
    using run_from_script[OF le ck, of V r]
    unfolding run tr lr
    apply (elim exE conjE)
    subgoal for n
      apply (rule exI[of _ n])
      apply (cases "n = Suc 0")
       apply simp_all
      done
    done
qed






section \<open>Reading the trace of a run\<close>

lemma invocations_Nil [simp]: "invocations [] = 0"
  by (simp add: invocations_def)

lemma invocations_Cons [simp]:
  "invocations (e # t) = (if e = Invoke then Suc (invocations t) else invocations t)"
  by (simp add: invocations_def)

lemma invocations_append [simp]: "invocations (xs @ ys) = invocations xs + invocations ys"
  by (simp add: invocations_def)

lemma sleeps_append [simp]: "sleeps (xs @ ys) = sleeps xs @ sleeps ys"
  by (induction xs rule: sleeps.induct) simp_all

lemma lastRunSets_append [simp]: "lastRunSets (xs @ ys) = lastRunSets xs @ lastRunSets ys"
  by (induction xs rule: lastRunSets.induct) simp_all

lemma script_read:
  "a < n \<Longrightarrow>
   invocations (script config h t0 a n) = n - Suc a
   \<and> sleeps (script config h t0 a n) = map (\<lambda>k. backoffBase config * of_nat k) [Suc a ..< n]
   \<and> lastRunSets (script config h t0 a n) = map (attempt_start config h t0) [Suc a ..< n]"
proof (induction "n - Suc a" arbitrary: a)
  case 0
  then have "n = Suc a" by simp
  then show ?case by simp
next
  case (Suc m)
  then have lt: "Suc a < n" by simp
  have "m = n - Suc (Suc a)" using Suc.hyps(2) by simp
  from Suc.hyps(1)[OF this lt] lt show ?case
    by (simp add: script_step[OF lt] upt_conv_Cons)
qed

section \<open>runScheduledTask: the claims about one run\<close>

lemma run_three_restarts_failing:
  "runScheduledTask three_restarts accept_all 0 failing_task never_started =
     (Failed 4,
      \<lparr>eng = \<lparr>cronJob = None, isRunning = False, lastRunTime = Some 14500, lastCronExpression = None\<rparr>,
       clock = 15000,
       trace = [SetLastRun 1000, Invoke, Sleep 2000, SetLastRun 3500, Invoke,
                Sleep 4000, SetLastRun 8000, Invoke, Sleep 6000, SetLastRun 14500, Invoke,
                Reschedule]\<rparr>)"
  by (simp add: runScheduledTask_def runScheduledTask_enter_def loop_head_def run_from.simps
      runScheduledTask_settled_def runScheduledTask_woken_def maxRetries_def backoffBase_def
      rescheduleWithJitter_def three_restarts_def failing_task_def never_started_def
      constructed_def Let_def)

lemma run_no_sections_fails_once:
  "runScheduledTask no_sections accept_all 0 fails_once never_started =
     (Succeeded 2,
      \<lparr>eng = \<lparr>cronJob = None, isRunning = False, lastRunTime = Some 3500, lastCronExpression = None\<rparr>,
       clock = 4000,
       trace = [SetLastRun 1000, Invoke, Sleep 2000, SetLastRun 3500, Invoke, Reschedule]\<rparr>)"
  by (simp add: runScheduledTask_def runScheduledTask_enter_def loop_head_def run_from.simps
      runScheduledTask_settled_def runScheduledTask_woken_def maxRetries_def backoffBase_def
      rescheduleWithJitter_def no_sections_def fails_once_def never_started_def
      constructed_def Let_def)

lemma run_busy:
  "runScheduledTask no_sections accept_all 0 fails_once busy = (Skipped, busy\<lparr>trace := [Skip]\<rparr>)"
  by (simp add: runScheduledTask_def runScheduledTask_enter_def run_from.simps
      busy_def constructed_def)

lemma run_no_sections_succeeds_at_once:
  "runScheduledTask no_sections accept_all 0 succeeds_at_once never_started =
     (Succeeded 1,
      \<lparr>eng = \<lparr>cronJob = None, isRunning = False, lastRunTime = Some 1000, lastCronExpression = None\<rparr>,
       clock = 1500,
       trace = [SetLastRun 1000, Invoke, Reschedule]\<rparr>)"
  by (simp add: runScheduledTask_def runScheduledTask_enter_def loop_head_def run_from.simps
      runScheduledTask_settled_def runScheduledTask_woken_def maxRetries_def backoffBase_def
      rescheduleWithJitter_def no_sections_def succeeds_at_once_def never_started_def
      constructed_def Let_def)

lemma run_events:
  "\<exists>evs. trace (snd (runScheduledTask config V r h w)) = trace w @ evs
      \<and> (isRunning (eng w) \<longrightarrow> evs = [Skip] \<and> fst (runScheduledTask config V r h w) = Skipped)
      \<and> (\<not> isRunning (eng w) \<and> maxRetries config < 0 \<longrightarrow> evs = [Reschedule])
      \<and> (\<not> isRunning (eng w) \<and> 0 \<le> maxRetries config \<longrightarrow>
           (\<exists>n. 0 < n \<and> int n \<le> maxRetries config + 1
              \<and> (\<forall>k. k + 1 < n \<longrightarrow> settles h k \<noteq> None)
              \<and> (fst (runScheduledTask config V r h w) = Succeeded n \<and> settles h (n - 1) = None
                   \<or> fst (runScheduledTask config V r h w) = Failed n
                      \<and> int n = maxRetries config + 1 \<and> settles h (n - 1) \<noteq> None)
              \<and> evs = [SetLastRun (clock w), Invoke] @ script config h (clock w) 0 n @ [Reschedule]
              \<and> lastRunTime (eng (snd (runScheduledTask config V r h w)))
                  = Some (attempt_start config h (clock w) (n - 1))))"
proof (cases "isRunning (eng w)")
  case True
  then show ?thesis by (simp add: runScheduledTask_skipped)
next
  case idle: False
  show ?thesis
  proof (cases "maxRetries config < 0")
    case True
    then show ?thesis using idle by (simp add: runScheduledTask_no_attempt)
  next
    case False
    then have nn: "0 \<le> maxRetries config" by simp
    from runScheduledTask_script[OF idle nn, of h V r] obtain n where
      n: "0 < n \<and> int n \<le> maxRetries config + 1
           \<and> (\<forall>k. k + 1 < n \<longrightarrow> settles h k \<noteq> None)
           \<and> (fst (runScheduledTask config V r h w) = Succeeded n \<and> settles h (n - 1) = None
                \<or> fst (runScheduledTask config V r h w) = Failed n
                   \<and> int n = maxRetries config + 1 \<and> settles h (n - 1) \<noteq> None)
           \<and> trace (snd (runScheduledTask config V r h w))
               = trace w @ [SetLastRun (clock w), Invoke] @ script config h (clock w) 0 n @ [Reschedule]
           \<and> lastRunTime (eng (snd (runScheduledTask config V r h w)))
               = Some (attempt_start config h (clock w) (n - 1))
           \<and> \<not> isRunning (eng (snd (runScheduledTask config V r h w)))" ..
    show ?thesis
      apply (rule exI[of _ "[SetLastRun (clock w), Invoke] @ script config h (clock w) 0 n @ [Reschedule]"])
      using idle nn False n by blast
  qed
qed

lemma read_run_events:
  assumes "0 < n"
  shows "invocations ([SetLastRun t, Invoke] @ script config h t0 0 n @ [Reschedule]) = n"
    and "sleeps ([SetLastRun t, Invoke] @ script config h t0 0 n @ [Reschedule])
           = map (\<lambda>k. backoffBase config * of_nat k) [1 ..< n]"
    and "lastRunSets ([SetLastRun t0, Invoke] @ script config h t0 0 n @ [Reschedule])
           = map (attempt_start config h t0) [0 ..< n]"
  using script_read[OF assms, of config h t0] assms
  by (simp_all add: upt_conv_Cons)

text \<open>
  C2, as amended. In a scheduled run the delay awaited after failed attempt \<open>k\<close>, before
  attempt \<open>k + 1\<close>, is \<open>backoffBaseMs * k\<close> (with 2000 for an absent \<open>backoffBaseMs\<close>): it grows
  linearly with the number of failures, it is not capped and it has no jitter. The
  backoffs of a run with \<open>n\<close> invocations of the task are those for \<open>k = 1, ..., n - 1\<close>.
\<close>

theorem scheduled_backoff_is_linear:
  "\<exists>evs. trace (snd (runScheduledTask config V r h w)) = trace w @ evs
      \<and> sleeps evs = map (\<lambda>k. backoffBase config * of_nat k) [1 ..< invocations evs]"
proof -
  from run_events[of config V r h w] obtain evs where
    t: "trace (snd (runScheduledTask config V r h w)) = trace w @ evs"
    and s: "isRunning (eng w) \<longrightarrow> evs = [Skip] \<and> fst (runScheduledTask config V r h w) = Skipped"
    and z: "\<not> isRunning (eng w) \<and> maxRetries config < 0 \<longrightarrow> evs = [Reschedule]"
    and p: "\<not> isRunning (eng w) \<and> 0 \<le> maxRetries config \<longrightarrow>
           (\<exists>n. 0 < n \<and> int n \<le> maxRetries config + 1
              \<and> (\<forall>k. k + 1 < n \<longrightarrow> settles h k \<noteq> None)
              \<and> (fst (runScheduledTask config V r h w) = Succeeded n \<and> settles h (n - 1) = None
                   \<or> fst (runScheduledTask config V r h w) = Failed n
                      \<and> int n = maxRetries config + 1 \<and> settles h (n - 1) \<noteq> None)
              \<and> evs = [SetLastRun (clock w), Invoke] @ script config h (clock w) 0 n @ [Reschedule]
              \<and> lastRunTime (eng (snd (runScheduledTask config V r h w)))
                  = Some (attempt_start config h (clock w) (n - 1)))"
    by blast
  have "sleeps evs = map (\<lambda>k. backoffBase config * of_nat k) [1 ..< invocations evs]"
  proof (cases "isRunning (eng w)")
    case True
    then show ?thesis using s by simp
  next
    case idle: False
    show ?thesis
    proof (cases "maxRetries config < 0")
      case True
      then show ?thesis using z idle by simp
    next
      case False
      then obtain n where n: "0 < n"
        "evs = [SetLastRun (clock w), Invoke] @ script config h (clock w) 0 n @ [Reschedule]"
        using p idle by auto
      show ?thesis
        unfolding n(2) read_run_events(1)[OF n(1)] by (rule read_run_events(2)[OF n(1)])
    qed
  qed
  with t show ?thesis by blast
qed

theorem scheduled_backoff_is_linear_witness:
  "trace (snd (runScheduledTask three_restarts accept_all 0 failing_task never_started))
     = trace never_started @ [SetLastRun 1000, Invoke, Sleep 2000, SetLastRun 3500, Invoke,
                Sleep 4000, SetLastRun 8000, Invoke, Sleep 6000, SetLastRun 14500, Invoke,
                Reschedule]
   \<and> sleeps (trace (snd (runScheduledTask three_restarts accept_all 0 failing_task never_started)))
       = [2000 * 1, 2000 * 2, 2000 * 3]
   \<and> invocations (trace (snd (runScheduledTask three_restarts accept_all 0 failing_task never_started)))
       = 4"
proof -
  have tr: "trace never_started = []" by (simp add: never_started_def)
  show ?thesis
    using scheduled_backoff_is_linear[of three_restarts accept_all 0 failing_task never_started]
    unfolding run_three_restarts_failing tr
    by simp
qed

lemma spec_delayFor_le_maxDelay:
  "0 \<le> maxDelay P \<Longrightarrow> spec_delayFor k P U \<le> maxDelay P"
  by (simp add: spec_delayFor_def Let_def)

text \<open>
  C2 as stated fails. With three restarts allowed and \<open>backoffBaseMs\<close> absent, a task that
  fails every time is retried after 2000, 4000 and 6000 milliseconds. The policy of the
  specification with base delay 2000 and the multiplier 2, the cap 30000 and the jitter 0.2
  that \<open>Retry\<close> has by default puts the third delay between 6400 and 9600. And no policy at
  all, whatever its multiplier, cap and jitter, gives the scheduler's delay after every
  number of failures: the scheduler's delay passes every cap.
\<close>

theorem scheduled_backoff_is_not_the_policy:
  "sleeps (trace (snd (runScheduledTask three_restarts accept_all 0 failing_task never_started)))
     = [2000, 4000, 6000]
   \<and> \<not> (\<exists>U. \<bar>U\<bar> \<le> 0.2 \<and>
            6000 = spec_delayFor 3 \<lparr>maxAttempts = 4, baseDelay = 2000, maxDelay = 30000,
                                    multiplier = 2, jitter = 0.2\<rparr> U)
   \<and> \<not> (\<exists>P. valid_policy P \<and>
            (\<forall>k\<ge>1. \<exists>U. \<bar>U\<bar> \<le> NumericPolicy.jitter P
                        \<and> backoffBase three_restarts * of_nat k = spec_delayFor k P U))"
proof (intro conjI)
  show "sleeps (trace (snd (runScheduledTask three_restarts accept_all 0 failing_task never_started)))
          = [2000, 4000, 6000]"
    unfolding run_three_restarts_failing by simp
next
  show "\<not> (\<exists>U. \<bar>U\<bar> \<le> 0.2 \<and>
            6000 = spec_delayFor 3 \<lparr>maxAttempts = 4, baseDelay = 2000, maxDelay = 30000,
                                    multiplier = 2, jitter = 0.2\<rparr> U)"
  proof
    assume "\<exists>U. \<bar>U\<bar> \<le> 0.2 \<and>
            6000 = spec_delayFor 3 \<lparr>maxAttempts = 4, baseDelay = 2000, maxDelay = 30000,
                                    multiplier = 2, jitter = 0.2\<rparr> U"
    then obtain U :: real where U: "\<bar>U\<bar> \<le> 0.2"
      and eq: "6000 = spec_delayFor 3 \<lparr>maxAttempts = 4, baseDelay = 2000, maxDelay = 30000,
                                    multiplier = 2, jitter = 0.2\<rparr> U"
      by blast
    have "6000 = max 0 (min 30000 (8000 * (1 + U)))"
      using eq by (simp add: spec_delayFor_def Let_def)
    moreover have "6400 \<le> 8000 * (1 + U)" using U by simp
    ultimately show False by simp
  qed
next
  show "\<not> (\<exists>P. valid_policy P \<and>
            (\<forall>k\<ge>1. \<exists>U. \<bar>U\<bar> \<le> NumericPolicy.jitter P
                        \<and> backoffBase three_restarts * of_nat k = spec_delayFor k P U))"
  proof
    assume "\<exists>P. valid_policy P \<and>
            (\<forall>k\<ge>1. \<exists>U. \<bar>U\<bar> \<le> NumericPolicy.jitter P
                        \<and> backoffBase three_restarts * of_nat k = spec_delayFor k P U)"
    then obtain P where v: "valid_policy P"
      and all: "\<forall>k\<ge>1. \<exists>U. \<bar>U\<bar> \<le> NumericPolicy.jitter P
                        \<and> backoffBase three_restarts * of_nat k = spec_delayFor k P U"
      by blast
    have M: "0 \<le> maxDelay P" using v by (simp add: valid_policy_def)
    define k where "k = nat \<lceil>maxDelay P\<rceil> + 1"
    have k1: "1 \<le> k" by (simp add: k_def)
    have "maxDelay P \<le> of_int \<lceil>maxDelay P\<rceil>" by (rule le_of_int_ceiling)
    also have "\<dots> < real k" using M by (simp add: k_def)
    finally have big: "maxDelay P < 2000 * real k" using M by linarith
    from all k1 obtain U where "backoffBase three_restarts * of_nat k = spec_delayFor k P U"
      by blast
    then have "2000 * real k = spec_delayFor k P U"
      by (simp add: backoffBase_def three_restarts_def)
    with spec_delayFor_le_maxDelay[OF M, of k U] big show False by simp
  qed
qed

text \<open>
  C3, as amended. In every run \<open>lastRunTime\<close> is assigned at the start of every attempt,
  once for each invocation of the task, to the time at that moment. A run that does not
  invoke the task (a skipped one, or one that is allowed no attempt) leaves it as it was.
  After a run with one attempt it is the time of the firing; after a run with more it is
  the start of the last attempt: the time of the firing plus, for every failed attempt,
  its duration and the wait for the backoff that followed.
\<close>

theorem lastRunTime_is_start_of_last_attempt:
  "\<exists>evs. trace (snd (runScheduledTask config V r h w)) = trace w @ evs
      \<and> lastRunSets evs = map (attempt_start config h (clock w)) [0 ..< invocations evs]
      \<and> (invocations evs = 0 \<longrightarrow>
            lastRunTime (eng (snd (runScheduledTask config V r h w))) = lastRunTime (eng w))
      \<and> (invocations evs = 1 \<longrightarrow>
            lastRunTime (eng (snd (runScheduledTask config V r h w))) = Some (clock w))
      \<and> (0 < invocations evs \<longrightarrow>
            lastRunTime (eng (snd (runScheduledTask config V r h w)))
              = Some (attempt_start config h (clock w) (invocations evs - 1)))"
proof (cases "isRunning (eng w)")
  case True
  show ?thesis
    by (rule exI[of _ "[Skip]"]) (simp add: runScheduledTask_skipped[OF True])
next
  case idle: False
  show ?thesis
  proof (cases "maxRetries config < 0")
    case True
    show ?thesis
      by (rule exI[of _ "[Reschedule]"]) (simp add: runScheduledTask_no_attempt[OF idle True])
  next
    case False
    then have nn: "0 \<le> maxRetries config" by simp
    from runScheduledTask_script[OF idle nn, of h V r] obtain n where n: "0 < n"
      and t: "trace (snd (runScheduledTask config V r h w))
                = trace w @ [SetLastRun (clock w), Invoke] @ script config h (clock w) 0 n @ [Reschedule]"
      and l: "lastRunTime (eng (snd (runScheduledTask config V r h w)))
                = Some (attempt_start config h (clock w) (n - 1))"
      by blast
    show ?thesis
      apply (rule exI[of _ "[SetLastRun (clock w), Invoke] @ script config h (clock w) 0 n @ [Reschedule]"])
      unfolding read_run_events(1)[OF n] read_run_events(3)[OF n]
      using n t l by auto
  qed
qed

theorem lastRunTime_is_start_of_last_attempt_witness:
  "lastRunSets (trace (snd (runScheduledTask no_sections accept_all 0 fails_once never_started)))
     = [1000, 3500]
   \<and> attempt_start no_sections fails_once (clock never_started) 1 = 3500
   \<and> lastRunTime (eng (snd (runScheduledTask no_sections accept_all 0 fails_once never_started)))
       = Some (attempt_start no_sections fails_once (clock never_started) 1)
   \<and> invocations (trace (snd (runScheduledTask no_sections accept_all 0 succeeds_at_once never_started))) = 1
   \<and> lastRunTime (eng (snd (runScheduledTask no_sections accept_all 0 succeeds_at_once never_started)))
       = Some (clock never_started)
   \<and> invocations (trace (snd (runScheduledTask no_sections accept_all 0 fails_once busy))) = 0
   \<and> lastRunTime (eng (snd (runScheduledTask no_sections accept_all 0 fails_once busy)))
       = lastRunTime (eng busy)"
proof -
  have 3: "attempt_start no_sections fails_once (clock never_started) 1 = 3500"
    by (simp add: backoffBase_def no_sections_def fails_once_def never_started_def)
  have 4: "trace never_started = []" "clock never_started = 1000"
    by (simp_all add: never_started_def)
  have 5: "trace busy = []" "lastRunTime (eng busy) = None"
    by (simp_all add: busy_def constructed_def)
  show ?thesis
    using lastRunTime_is_start_of_last_attempt[of no_sections accept_all 0 fails_once never_started]
      lastRunTime_is_start_of_last_attempt[of no_sections accept_all 0 succeeds_at_once never_started]
      lastRunTime_is_start_of_last_attempt[of no_sections accept_all 0 fails_once busy] 3
    unfolding run_no_sections_fails_once run_no_sections_succeeds_at_once run_busy 4 5
    by (simp add: busy_def constructed_def)
qed

text \<open>
  C3 as stated fails. With the default of one restart, a firing at time 1000 whose first
  attempt fails after 500 milliseconds is retried 2000 milliseconds later; \<open>lastRunTime\<close> is
  assigned twice, and after the run it is 3500, the start of the second attempt, not the
  time of the firing.
\<close>

theorem lastRunTime_moves_with_retry:
  "clock never_started = 1000
   \<and> fst (runScheduledTask no_sections accept_all 0 fails_once never_started) = Succeeded 2
   \<and> lastRunSets (trace (snd (runScheduledTask no_sections accept_all 0 fails_once never_started)))
       = [1000, 3500]
   \<and> lastRunTime (eng (snd (runScheduledTask no_sections accept_all 0 fails_once never_started)))
       = Some 3500"
  unfolding run_no_sections_fails_once by (simp add: never_started_def)

text \<open>
  C7. A task that fails on every attempt is invoked exactly \<open>N\<close> times when \<open>N \<ge> 1\<close>
  attempts are allowed, and then the run ends in failure. \<open>Retry.run\<close> with
  \<open>maxAttempts = N\<close> (and every error retryable) throws the error of the last attempt,
  wrapped in an \<open>Error\<close> if it was not one, after \<open>N\<close> invocations. A scheduled run with
  \<open>maxRestarts = N - 1\<close> leaves its loop after \<open>N\<close> failed invocations; the function
  returns nothing, the count is in its last log line.
\<close>

theorem always_failing_task_is_tried_N_times:
  assumes "1 \<le> N"
  shows "(maxAttempts p = int N \<and> (\<forall>k. fn k = Inl (errs k)) \<and> (\<forall>k. retryable isRetryable (errs k))
            \<longrightarrow> result (run p fn isRetryable random) = Inl (toError (errs (N - 1)))
                \<and> calls (run p fn isRetryable random) = N)
         \<and> (maxRetries config + 1 = int N \<and> (\<forall>k. settles h k \<noteq> None) \<and> \<not> isRunning (eng w)
            \<longrightarrow> fst (runScheduledTask config V r h w) = Failed N
                \<and> (\<exists>evs. trace (snd (runScheduledTask config V r h w)) = trace w @ evs
                          \<and> invocations evs = N))"
proof (intro conjI impI)
  assume a: "maxAttempts p = int N \<and> (\<forall>k. fn k = Inl (errs k)) \<and> (\<forall>k. retryable isRetryable (errs k))"
  then have lt: "int 0 < maxAttempts p" using assms by simp
  from a have f: "\<forall>i. fn i = Inl (errs i)" and rt: "\<forall>i. retryable isRetryable (errs i)" by simp_all
  have n: "nat (maxAttempts p) = N" using a by simp
  from run_loop_all_fail[OF f rt lt, of random "baseDelay p" undefined_value "[]"]
  show "result (run p fn isRetryable random) = Inl (toError (errs (N - 1)))"
    and "calls (run p fn isRetryable random) = N"
    unfolding run_def n by simp_all
next
  assume b: "maxRetries config + 1 = int N \<and> (\<forall>k. settles h k \<noteq> None) \<and> \<not> isRunning (eng w)"
  then have idle: "\<not> isRunning (eng w)" and nn: "0 \<le> maxRetries config"
    using assms by simp_all
  from runScheduledTask_script[OF idle nn, of h V r] obtain n where n: "0 < n"
    and o: "fst (runScheduledTask config V r h w) = Succeeded n \<and> settles h (n - 1) = None
                \<or> fst (runScheduledTask config V r h w) = Failed n
                   \<and> int n = maxRetries config + 1 \<and> settles h (n - 1) \<noteq> None"
    and t: "trace (snd (runScheduledTask config V r h w))
              = trace w @ [SetLastRun (clock w), Invoke] @ script config h (clock w) 0 n @ [Reschedule]"
    by blast
  from o b have fl: "fst (runScheduledTask config V r h w) = Failed n" and nN: "n = N"
    by auto
  show "fst (runScheduledTask config V r h w) = Failed N" using fl nN by simp
  show "\<exists>evs. trace (snd (runScheduledTask config V r h w)) = trace w @ evs \<and> invocations evs = N"
    apply (rule exI[of _ "[SetLastRun (clock w), Invoke] @ script config h (clock w) 0 n @ [Reschedule]"])
    unfolding read_run_events(1)[OF n]
    using t nN by simp
qed

lemma run_four_attempts_always_fails:
  "result (run four_attempts always_fails None half) = Inl (Err ''boom'')
   \<and> calls (run four_attempts always_fails None half) = 4"
  by (simp add: run_def run_loop.simps four_attempts_def def_def always_fails_def half_def)

theorem always_failing_task_is_tried_N_times_witness:
  "result (run four_attempts always_fails None half) = Inl (Err ''boom'')
   \<and> calls (run four_attempts always_fails None half) = 4
   \<and> fst (runScheduledTask three_restarts accept_all 0 failing_task never_started) = Failed 4
   \<and> invocations (trace (snd (runScheduledTask three_restarts accept_all 0 failing_task never_started))) = 4"
proof -
  have 1: "(1::nat) \<le> 4" by simp
  have 2: "maxAttempts four_attempts = int 4 \<and> (\<forall>k. always_fails k = Inl (Err ''boom''))
           \<and> (\<forall>k. retryable None (Err ''boom''))"
    by (simp add: four_attempts_def always_fails_def retryable_def)
  have 3: "maxRetries three_restarts + 1 = int 4 \<and> (\<forall>k. settles failing_task k \<noteq> None)
           \<and> \<not> isRunning (eng never_started)"
    by (simp add: maxRetries_def three_restarts_def failing_task_def never_started_def constructed_def)
  have 4: "trace never_started = []" by (simp add: never_started_def)
  show ?thesis
    using always_failing_task_is_tried_N_times[OF 1, where p = four_attempts and fn = always_fails
        and errs = "\<lambda>k. Err ''boom''" and isRetryable = None and random = half
        and config = three_restarts and h = failing_task and w = never_started
        and V = accept_all and r = 0] 2 3
    unfolding 4 by auto
qed










section \<open>Schedule resolution: the claims\<close>

lemma add_days_eq: "add_days t = (if t < 0 then t mod 1440 else t)"
proof (induction t rule: add_days.induct)
  case (1 t)
  show ?case
  proof (cases "t < 0")
    case False
    then show ?thesis by (subst add_days.simps) simp
  next
    case True
    have "add_days t = add_days (t + 24 * 60)" using True by (subst add_days.simps) simp
    also have "\<dots> = (if t + 24 * 60 < 0 then (t + 24 * 60) mod 1440 else t + 24 * 60)"
      using 1[OF True] .
    also have "\<dots> = t mod 1440"
    proof (cases "t + 24 * 60 < 0")
      case True
      have "(t + 1440) mod 1440 = t mod 1440" by simp
      then show ?thesis using True by simp
    next
      case False
      have "(t + 1440) mod 1440 = t mod 1440" by simp
      moreover have "(t + 1440) mod 1440 = t + 1440"
        using False \<open>t < 0\<close> by (intro mod_pos_pos_trivial) simp_all
      ultimately show ?thesis using False by simp
    qed
    finally show ?thesis using True by simp
  qed
qed

lemma sub_days_eq: "0 \<le> t \<Longrightarrow> sub_days t = t mod 1440"
proof (induction t rule: sub_days.induct)
  case (1 t)
  show ?case
  proof (cases "t \<ge> 24 * 60")
    case False
    then show ?thesis using "1.prems" by (subst sub_days.simps) simp
  next
    case True
    have "sub_days t = sub_days (t - 24 * 60)" using True by (subst sub_days.simps) simp
    also have "\<dots> = (t - 24 * 60) mod 1440" using 1(1)[OF True] True by simp
    also have "\<dots> = t mod 1440"
    proof -
      have "(t - 1440) mod 1440 = (t - 1440 + 1440) mod 1440" by (simp only: mod_add_self2)
      then show ?thesis by simp
    qed
    finally show ?thesis .
  qed
qed

lemma wrap_minutes: "sub_days (add_days t) = t mod 1440"
proof (cases "t < 0")
  case True
  have "0 \<le> t mod 1440" by simp
  then show ?thesis using True by (simp add: add_days_eq sub_days_eq)
next
  case False
  then show ?thesis by (simp add: add_days_eq sub_days_eq)
qed

lemma js_rem_nonneg: "0 \<le> a \<Longrightarrow> js_rem a 60 = a mod 60"
  by (cases "a = 0") (simp_all add: js_rem_def)

text \<open>
  C5. For every valid base time and every jitter configuration and random draw, the hour
  and minute that \<open>applyJitter\<close> returns, read as minutes of the day, are the base plus the
  offset it reports modulo 1440, with the hour in \<open>[0, 23]\<close> and the minute in \<open>[0, 59]\<close>.
\<close>

theorem applyJitter_wraps_modulo_day:
  assumes "0 \<le> h" and "h \<le> 23" and "0 \<le> m" and "m \<le> 59"
  shows "hour (applyJitter h m window r) * 60 + minute (applyJitter h m window r)
           = (h * 60 + m + offsetMinutes (applyJitter h m window r)) mod 1440
         \<and> 0 \<le> hour (applyJitter h m window r) \<and> hour (applyJitter h m window r) \<le> 23
         \<and> 0 \<le> minute (applyJitter h m window r) \<and> minute (applyJitter h m window r) \<le> 59"
proof -
  have base: "(h * 60 + m) mod 1440 = h * 60 + m" using assms by simp
  have wrapped: "(t mod 1440) div 60 * 60 + js_rem (t mod 1440) 60 = t mod 1440
                 \<and> 0 \<le> (t mod 1440) div 60 \<and> (t mod 1440) div 60 \<le> 23
                 \<and> 0 \<le> js_rem (t mod 1440) 60 \<and> js_rem (t mod 1440) 60 \<le> 59" for t :: int
  proof -
    have r: "0 \<le> t mod 1440" "t mod 1440 < 1440" by simp_all
    have j: "js_rem (t mod 1440) 60 = (t mod 1440) mod 60" using r(1) by (rule js_rem_nonneg)
    have d: "(t mod 1440) div 60 \<le> 23" using r(2) by simp
    have d0: "0 \<le> (t mod 1440) div 60" using r(1) by simp
    have m1: "0 \<le> (t mod 1440) mod 60" "(t mod 1440) mod 60 \<le> 59" by simp_all
    show ?thesis unfolding j using d d0 m1 by simp
  qed
  show ?thesis
    using assms base wrapped
    by (simp add: applyJitter_def Let_def wrap_minutes)
qed

lemma applyJitter_ten_past_midnight:
  "applyJitter 0 10 (Some window_20_30) 0 = \<lparr>hour = 23, minute = 50, offsetMinutes = - 20\<rparr>"
  by (simp add: applyJitter_def getRandomInt_def window_20_30_def wrap_minutes js_rem_def Let_def)

lemma buildSchedule_ten_past_midnight:
  "buildSchedule ten_past_midnight 0 =
     \<lparr>cronExpr = Some ''50 23 * * *'', displayTime = ''00:10'', jitterApplied = - 20\<rparr>"
proof -
  have t: "trim ''00:10'' = ''00:10''" by (simp add: trim_def isWhiteSpace_def)
  have p: "parseInt ''00'' = 0" "parseInt ''10'' = 10" by (simp_all add: parseInt_def)
  have s: "String 50 = ''50''" "String 23 = ''23''" "String 0 = ''0''" "String 10 = ''10''"
    by (simp_all add: String_def digits.simps)
  show ?thesis
    by (simp add: buildSchedule_def ten_past_midnight_def t p s isDigit_def padStart2_def
        applyJitter_ten_past_midnight)
qed

theorem applyJitter_wraps_modulo_day_witness:
  "applyJitter 0 10 (Some window_20_30) 0 = \<lparr>hour = 23, minute = 50, offsetMinutes = - 20\<rparr>
   \<and> (23::int) * 60 + 50 = (0 * 60 + 10 + (- 20)) mod 1440
   \<and> cronExpr (buildSchedule ten_past_midnight 0) = Some ''50 23 * * *''"
proof -
  have h: "(0::int) \<le> 0" "(0::int) \<le> 23" "(0::int) \<le> 10" "(10::int) \<le> 59" by simp_all
  show ?thesis
    using applyJitter_wraps_modulo_day[OF h, of "Some window_20_30" 0]
    unfolding applyJitter_ten_past_midnight buildSchedule_ten_past_midnight
    by simp
qed

lemma getRandomInt_range:
  assumes "\<lceil>lo\<rceil> \<le> \<lfloor>hi\<rfloor>" and "0 \<le> r" and "r < 1"
  shows "\<lceil>lo\<rceil> \<le> getRandomInt lo hi r \<and> getRandomInt lo hi r \<le> \<lfloor>hi\<rfloor>"
proof -
  define n where "n = \<lfloor>hi\<rfloor> - \<lceil>lo\<rceil> + 1"
  have n: "0 < n" using assms(1) by (simp add: n_def)
  have lo: "0 \<le> r * of_int n" using assms(2) n by simp
  have "r * of_int n < 1 * of_int n" using assms(3) n by (intro mult_strict_right_mono) simp_all
  then have hi: "r * of_int n < of_int n" by simp
  have "0 \<le> \<lfloor>r * of_int n\<rfloor>" using lo by simp
  moreover have "\<lfloor>r * of_int n\<rfloor> < n" using hi by (simp add: floor_less_iff)
  ultimately show ?thesis by (simp add: getRandomInt_def Let_def n_def)
qed

text \<open>
  C9. With jitter enabled, a \<open>minMinutesBefore\<close> that is absent or not a finite number acts
  as 20 and such a \<open>maxMinutesAfter\<close> as 30, so that with both missing the offset lies
  between 20 minutes before and 30 minutes after; and a bound acts as its absolute value:
  the negative of a bound gives the same result as the bound, and the offset lies between
  minus the magnitude of the first and the magnitude of the second.
\<close>

theorem jitter_window_defaults_and_magnitudes:
  assumes "jitter_options.enabled j = Some True" and "0 \<le> r" and "r < 1"
  shows "(not_finite (minMinutesBefore j) \<longrightarrow>
            applyJitter h m (Some j) r = applyJitter h m (Some (j\<lparr>minMinutesBefore := Some (Num 20)\<rparr>)) r)
         \<and> (not_finite (maxMinutesAfter j) \<longrightarrow>
            applyJitter h m (Some j) r = applyJitter h m (Some (j\<lparr>maxMinutesAfter := Some (Num 30)\<rparr>)) r)
         \<and> (not_finite (minMinutesBefore j) \<and> not_finite (maxMinutesAfter j) \<longrightarrow>
            - 20 \<le> offsetMinutes (applyJitter h m (Some j) r)
            \<and> offsetMinutes (applyJitter h m (Some j) r) \<le> 30)
         \<and> applyJitter h m (Some (j\<lparr>minMinutesBefore := Some (Num (- b))\<rparr>)) r
             = applyJitter h m (Some (j\<lparr>minMinutesBefore := Some (Num b)\<rparr>)) r
         \<and> applyJitter h m (Some (j\<lparr>maxMinutesAfter := Some (Num (- a))\<rparr>)) r
             = applyJitter h m (Some (j\<lparr>maxMinutesAfter := Some (Num a)\<rparr>)) r
         \<and> (minMinutesBefore j = Some (Num b) \<and> maxMinutesAfter j = Some (Num a) \<longrightarrow>
            - \<bar>b\<bar> \<le> of_int (offsetMinutes (applyJitter h m (Some j) r))
            \<and> of_int (offsetMinutes (applyJitter h m (Some j) r)) \<le> \<bar>a\<bar>)"
proof (intro conjI impI)
  assume "not_finite (minMinutesBefore j)"
  then show "applyJitter h m (Some j) r
               = applyJitter h m (Some (j\<lparr>minMinutesBefore := Some (Num 20)\<rparr>)) r"
    by (cases "minMinutesBefore j" rule: not_finite.cases) (simp_all add: applyJitter_def)
next
  assume "not_finite (maxMinutesAfter j)"
  then show "applyJitter h m (Some j) r
               = applyJitter h m (Some (j\<lparr>maxMinutesAfter := Some (Num 30)\<rparr>)) r"
    by (cases "maxMinutesAfter j" rule: not_finite.cases) (simp_all add: applyJitter_def)
next
  assume nf: "not_finite (minMinutesBefore j) \<and> not_finite (maxMinutesAfter j)"
  have eq: "offsetMinutes (applyJitter h m (Some j) r) = getRandomInt (- 20) 30 r"
    using nf assms(1)
    by (cases "minMinutesBefore j" rule: not_finite.cases;
        cases "maxMinutesAfter j" rule: not_finite.cases)
       (simp_all add: applyJitter_def Let_def)
  have "\<lceil>- 20 :: real\<rceil> \<le> \<lfloor>30 :: real\<rfloor>" by simp
  from getRandomInt_range[OF this assms(2,3)]
  show "- 20 \<le> offsetMinutes (applyJitter h m (Some j) r)"
    and "offsetMinutes (applyJitter h m (Some j) r) \<le> 30"
    unfolding eq by simp_all
next
  show "applyJitter h m (Some (j\<lparr>minMinutesBefore := Some (Num (- b))\<rparr>)) r
          = applyJitter h m (Some (j\<lparr>minMinutesBefore := Some (Num b)\<rparr>)) r"
    by (simp add: applyJitter_def Let_def)
next
  show "applyJitter h m (Some (j\<lparr>maxMinutesAfter := Some (Num (- a))\<rparr>)) r
          = applyJitter h m (Some (j\<lparr>maxMinutesAfter := Some (Num a)\<rparr>)) r"
    by (simp add: applyJitter_def Let_def)
next
  assume f: "minMinutesBefore j = Some (Num b) \<and> maxMinutesAfter j = Some (Num a)"
  have le: "\<lceil>- \<bar>b\<bar>\<rceil> \<le> \<lfloor>\<bar>a\<bar>\<rfloor>"
  proof -
    have "\<lceil>- \<bar>b\<bar>\<rceil> \<le> 0" by (simp add: ceiling_le_iff)
    moreover have "0 \<le> \<lfloor>\<bar>a\<bar>\<rfloor>" by simp
    ultimately show ?thesis by linarith
  qed
  have cases: "offsetMinutes (applyJitter h m (Some j) r) = 0 \<and> b = 0 \<and> a = 0
               \<or> offsetMinutes (applyJitter h m (Some j) r) = getRandomInt (- \<bar>b\<bar>) \<bar>a\<bar> r"
    using f assms(1) by (simp add: applyJitter_def Let_def)
  have lo: "- \<bar>b\<bar> \<le> of_int \<lceil>- \<bar>b\<bar>\<rceil>" by (rule le_of_int_ceiling)
  have hi: "of_int \<lfloor>\<bar>a\<bar>\<rfloor> \<le> \<bar>a\<bar>" by (rule of_int_floor_le)
  from getRandomInt_range[OF le assms(2,3)]
  have g: "of_int \<lceil>- \<bar>b\<bar>\<rceil> \<le> (of_int (getRandomInt (- \<bar>b\<bar>) \<bar>a\<bar> r) :: real)"
    "(of_int (getRandomInt (- \<bar>b\<bar>) \<bar>a\<bar> r) :: real) \<le> of_int \<lfloor>\<bar>a\<bar>\<rfloor>"
    by simp_all
  have gl: "- \<bar>b\<bar> \<le> of_int (getRandomInt (- \<bar>b\<bar>) \<bar>a\<bar> r)"
    using lo g(1) by (rule order_trans)
  have gh: "of_int (getRandomInt (- \<bar>b\<bar>) \<bar>a\<bar> r) \<le> \<bar>a\<bar>"
    using g(2) hi by (rule order_trans)
  from cases show "- \<bar>b\<bar> \<le> of_int (offsetMinutes (applyJitter h m (Some j) r))"
  proof
    assume "offsetMinutes (applyJitter h m (Some j) r) = 0 \<and> b = 0 \<and> a = 0"
    then show ?thesis by simp
  next
    assume "offsetMinutes (applyJitter h m (Some j) r) = getRandomInt (- \<bar>b\<bar>) \<bar>a\<bar> r"
    then show ?thesis using gl by (simp only:)
  qed
  from cases show "of_int (offsetMinutes (applyJitter h m (Some j) r)) \<le> \<bar>a\<bar>"
  proof
    assume "offsetMinutes (applyJitter h m (Some j) r) = 0 \<and> b = 0 \<and> a = 0"
    then show ?thesis by simp
  next
    assume "offsetMinutes (applyJitter h m (Some j) r) = getRandomInt (- \<bar>b\<bar>) \<bar>a\<bar> r"
    then show ?thesis using gh by (simp only:)
  qed
qed

lemma applyJitter_only_enabled:
  "applyJitter 9 0 (Some only_enabled) (99 / 100) = \<lparr>hour = 9, minute = 30, offsetMinutes = 30\<rparr>"
  "applyJitter 9 0 (Some (only_enabled\<lparr>minMinutesBefore := Some (Num 20)\<rparr>)) (99 / 100)
     = \<lparr>hour = 9, minute = 30, offsetMinutes = 30\<rparr>"
  "applyJitter 9 0 (Some (only_enabled\<lparr>maxMinutesAfter := Some (Num 30)\<rparr>)) (99 / 100)
     = \<lparr>hour = 9, minute = 30, offsetMinutes = 30\<rparr>"
  by (simp_all add: applyJitter_def getRandomInt_def only_enabled_def wrap_minutes js_rem_def Let_def)

theorem jitter_window_defaults_and_magnitudes_witness:
  "jitter_options.enabled only_enabled = Some True
   \<and> not_finite (minMinutesBefore only_enabled) \<and> not_finite (maxMinutesAfter only_enabled)
   \<and> applyJitter 9 0 (Some only_enabled) (99 / 100) = \<lparr>hour = 9, minute = 30, offsetMinutes = 30\<rparr>
   \<and> applyJitter 9 0 (Some (only_enabled\<lparr>minMinutesBefore := Some (Num 20)\<rparr>)) (99 / 100)
       = \<lparr>hour = 9, minute = 30, offsetMinutes = 30\<rparr>
   \<and> applyJitter 9 0 (Some (only_enabled\<lparr>maxMinutesAfter := Some (Num 30)\<rparr>)) (99 / 100)
       = \<lparr>hour = 9, minute = 30, offsetMinutes = 30\<rparr>
   \<and> minMinutesBefore window_20_30 = Some (Num 20) \<and> maxMinutesAfter window_20_30 = Some (Num 30)
   \<and> offsetMinutes (applyJitter 0 10 (Some window_20_30) 0) = - 20"
proof -
  have 1: "jitter_options.enabled only_enabled = Some True" by (simp add: only_enabled_def)
  have 2: "(0::real) \<le> 99 / 100" "(99 / 100 :: real) < 1" by simp_all
  have 3: "not_finite (minMinutesBefore only_enabled) \<and> not_finite (maxMinutesAfter only_enabled)"
    by (simp add: only_enabled_def)
  have 4: "jitter_options.enabled window_20_30 = Some True" by (simp add: window_20_30_def)
  have 5: "(0::real) \<le> 0" "(0::real) < 1" by simp_all
  have 6: "minMinutesBefore window_20_30 = Some (Num 20) \<and> maxMinutesAfter window_20_30 = Some (Num 30)"
    by (simp add: window_20_30_def)
  show ?thesis
    using 1 3 6 jitter_window_defaults_and_magnitudes[OF 1 2, of 9 0 0 0]
      jitter_window_defaults_and_magnitudes[OF 4 5, of 0 10 20 30]
      applyJitter_only_enabled applyJitter_ten_past_midnight
    by simp
qed

text \<open>
  C4, as amended. For every schedule whose \<open>time\<close> is present, not the empty string, and
  malformed, \<open>buildSchedule\<close> yields no expression, whatever the legacy cron expression
  beside it, and \<open>start\<close> returns \<open>false\<close> and leaves the engine as it was.
\<close>

theorem malformed_time_is_not_rescued_by_cron:
  assumes "time scheduleConfig = Some t" and "t \<noteq> []" and "malformed t"
  shows "cronExpr (buildSchedule scheduleConfig r) = None
         \<and> (scheduling config = Some scheduleConfig \<longrightarrow> start config V r e = (False, e))"
proof -
  have none: "cronExpr (buildSchedule scheduleConfig r) = None"
    using assms by (auto simp: buildSchedule_def malformed_def Let_def split: option.splits)
  show ?thesis
    using none by (auto simp: start_def Let_def)
qed

lemma malformed_24: "malformed ''24:00''"
proof -
  have t: "trim ''24:00'' = ''24:00''" by (simp add: trim_def isWhiteSpace_def)
  have p: "parseInt ''24'' = 24" by (simp add: parseInt_def)
  show ?thesis by (simp add: malformed_def t p isDigit_def)
qed

theorem malformed_time_is_not_rescued_by_cron_witness:
  "time hour_24 = Some ''24:00'' \<and> malformed ''24:00'' \<and> cron_schedule hour_24 = Some ''0 5 * * *''
   \<and> cronExpr (buildSchedule hour_24 0) = None
   \<and> start \<lparr>scheduling = Some hour_24, crashRecovery = None\<rparr> accept_all 0 constructed
       = (False, constructed)"
proof -
  have 1: "time hour_24 = Some ''24:00''" by (simp add: hour_24_def)
  have 2: "''24:00'' \<noteq> []" by simp
  have 3: "cron_schedule hour_24 = Some ''0 5 * * *''" by (simp add: hour_24_def)
  show ?thesis
    using 1 3 malformed_24
      malformed_time_is_not_rescued_by_cron[OF 1 2 malformed_24,
        of 0 "\<lparr>scheduling = Some hour_24, crashRecovery = None\<rparr>" accept_all constructed]
    by simp
qed

text \<open>
  C4 as stated fails for a \<open>time\<close> that is present and empty. The empty string does not
  match the regular expression, but \<open>if (scheduleConfig.time)\<close> takes it for absent: with a
  legacy expression beside it the schedule resolves to that expression and \<open>start\<close>
  returns \<open>true\<close>.
\<close>

theorem empty_time_falls_back_to_cron:
  "time empty_time = Some [] \<and> malformed []
   \<and> buildSchedule empty_time 0
       = \<lparr>cronExpr = Some ''0 5 * * *'', displayTime = ''05:00'', jitterApplied = 0\<rparr>
   \<and> start \<lparr>scheduling = Some empty_time, crashRecovery = None\<rparr> accept_all 0 constructed
       = (True, constructed\<lparr>cronJob := Some ''0 5 * * *'', lastCronExpression := Some ''0 5 * * *''\<rparr>)"
proof -
  have m: "malformed []" by (simp add: malformed_def trim_def)
  have x: "extractTimeFromCron ''0 5 * * *'' = ''05:00''"
    by (simp add: extractTimeFromCron_def padStart2_def Let_def)
  have b: "buildSchedule empty_time 0
       = \<lparr>cronExpr = Some ''0 5 * * *'', displayTime = ''05:00'', jitterApplied = 0\<rparr>"
    by (simp add: buildSchedule_def empty_time_def x)
  have s: "start \<lparr>scheduling = Some empty_time, crashRecovery = None\<rparr> accept_all 0 constructed
       = (True, constructed\<lparr>cronJob := Some ''0 5 * * *'', lastCronExpression := Some ''0 5 * * *''\<rparr>)"
    unfolding start_def by (simp add: b accept_all_def schedule_job_def) (simp add: empty_time_def)
  show ?thesis using m b s by (simp add: empty_time_def)
qed

section \<open>The overlap guard among several calls\<close>

lemma start_isRunning [simp]: "isRunning (snd (start config V r e)) = isRunning e"
  by (simp add: start_def Let_def split: option.splits)

lemma stop_isRunning [simp]: "isRunning (stop e) = isRunning e"
  by (simp add: stop_def split: option.splits)

lemma loop_head_effect:
  "loop_head config V r a w = (pl, w') \<Longrightarrow> \<not> isRunning (eng w) \<Longrightarrow>
   in_progress pl = isRunning (eng w')"
  by (auto simp: loop_head_def split: if_splits)

lemma enter_busy:
  "isRunning (eng w) \<Longrightarrow>
   runScheduledTask_enter config V r w = (Returned Skipped, w\<lparr>trace := trace w @ [Skip]\<rparr>)"
  by (simp add: runScheduledTask_enter_def)

lemma enter_idle:
  "runScheduledTask_enter config V r w = (pl, w') \<Longrightarrow> \<not> isRunning (eng w) \<Longrightarrow>
   in_progress pl = isRunning (eng w')"
  by (simp add: runScheduledTask_enter_def loop_head_effect)

lemma settled_effect:
  "runScheduledTask_settled config V r a settled w = (pl, w') \<Longrightarrow> isRunning (eng w) \<Longrightarrow>
   in_progress pl = isRunning (eng w')"
  by (cases settled)
     (auto simp: runScheduledTask_settled_def Let_def split: if_splits dest!: loop_head_effect)

lemma woken_effect:
  "runScheduledTask_woken config V r a w = (pl, w') \<Longrightarrow> in_progress pl = isRunning (eng w')"
  by (auto simp: runScheduledTask_woken_def dest!: loop_head_effect)

lemma guarded_append:
  assumes "guarded s"
    and "isRunning (eng (state s)) \<Longrightarrow> \<not> in_progress pl \<and> isRunning (eng w)"
    and "\<not> isRunning (eng (state s)) \<Longrightarrow> in_progress pl = isRunning (eng w)"
  shows "guarded \<lparr>state = w, firings = firings s @ [pl]\<rparr>"
proof (cases "isRunning (eng (state s))")
  case True
  with assms(2) have np: "\<not> in_progress pl" and r: "isRunning (eng w)" by simp_all
  show ?thesis
    using assms(1) True np r
    unfolding guarded_def
    by (auto simp: nth_append less_Suc_eq)
next
  case False
  with assms(3) have e: "in_progress pl = isRunning (eng w)" by simp
  from False assms(1) have none: "\<forall>i < length (firings s). \<not> in_progress (firings s ! i)"
    unfolding guarded_def by blast
  show ?thesis
    using none e
    unfolding guarded_def
    by (auto simp: nth_append less_Suc_eq)
qed

lemma guarded_update:
  assumes "guarded s" and "i < length (firings s)" and "in_progress (firings s ! i)"
    and "in_progress pl = isRunning (eng w)"
  shows "guarded \<lparr>state = w, firings = (firings s)[i := pl]\<rparr>"
proof -
  from assms(1,2,3) have only: "\<forall>j < length (firings s). in_progress (firings s ! j) \<longrightarrow> j = i"
    unfolding guarded_def by blast
  have other: "\<not> in_progress ((firings s)[i := pl] ! j)" if "j < length (firings s)" "j \<noteq> i" for j
    using that only by (auto simp: nth_list_update)
  have self: "(firings s)[i := pl] ! i = pl" using assms(2) by simp
  show ?thesis
    unfolding guarded_def
  proof (intro conjI allI impI)
    fix a b
    assume "a < length (firings \<lparr>state = w, firings = (firings s)[i := pl]\<rparr>)
            \<and> b < length (firings \<lparr>state = w, firings = (firings s)[i := pl]\<rparr>)
            \<and> in_progress (firings \<lparr>state = w, firings = (firings s)[i := pl]\<rparr> ! a)
            \<and> in_progress (firings \<lparr>state = w, firings = (firings s)[i := pl]\<rparr> ! b)"
    then have ab: "a < length (firings s)" "in_progress ((firings s)[i := pl] ! a)"
      "b < length (firings s)" "in_progress ((firings s)[i := pl] ! b)"
      by simp_all
    have "a = i" using other[of a] ab(1,2) by blast
    moreover have "b = i" using other[of b] ab(3,4) by blast
    ultimately show "a = b" by simp
  next
    show "isRunning (eng (state \<lparr>state = w, firings = (firings s)[i := pl]\<rparr>))
          = (\<exists>j < length (firings \<lparr>state = w, firings = (firings s)[i := pl]\<rparr>).
               in_progress (firings \<lparr>state = w, firings = (firings s)[i := pl]\<rparr> ! j))"
    proof (cases "in_progress pl")
      case True
      then show ?thesis using assms(2,4) self by auto
    next
      case False
      have "\<not> in_progress ((firings s)[i := pl] ! j)" if "j < length (firings s)" for j
        using that other[of j] self False by (cases "j = i") auto
      then show ?thesis using False assms(4) by auto
    qed
  qed
qed

lemma guarded_same_firings:
  "guarded s \<Longrightarrow> isRunning (eng w) = isRunning (eng (state s)) \<Longrightarrow> guarded (s\<lparr>state := w\<rparr>)"
  by (simp add: guarded_def)

lemma guarded_step:
  assumes "step config V s s'" and "guarded s"
  shows "guarded s'"
  using assms
proof (induction rule: step.induct)
  case (fire r s pl w)
  show ?case
  proof (rule guarded_append[OF fire(2)])
    assume b: "isRunning (eng (state s))"
    from fire(1) enter_busy[OF b, of config V r]
    show "\<not> in_progress pl \<and> isRunning (eng w)" using b by auto
  next
    assume "\<not> isRunning (eng (state s))"
    then show "in_progress pl = isRunning (eng w)" by (rule enter_idle[OF fire(1)])
  qed
next
  case (settle i s attempts r settled pl w)
  have ip: "in_progress (firings s ! i)" using settle(2) by simp
  then have run: "isRunning (eng (state s))"
    using settle(1,4) unfolding guarded_def by blast
  show ?case
    by (rule guarded_update[OF settle(4) settle(1) ip settled_effect[OF settle(3) run]])
next
  case (wake i s attempts backoff r pl w)
  have ip: "in_progress (firings s ! i)" using wake(2) by simp
  show ?case
    by (rule guarded_update[OF wake(4) wake(1) ip woken_effect[OF wake(3)]])
next
  case (tick d s)
  then show ?case by (intro guarded_same_firings) simp_all
next
  case (started r s ok e)
  have "isRunning e = isRunning (eng (state s))"
    using start_isRunning[of config V r "eng (state s)"] started(1) by simp
  then show ?case using started(2) by (intro guarded_same_firings) simp_all
next
  case (stopped s)
  then show ?case by (intro guarded_same_firings) simp_all
qed

lemma guarded_initial: "guarded (initial t0)"
  by (simp add: guarded_def initial_def constructed_def)

lemma guarded_reachable:
  assumes "reachable config V s"
  shows "guarded s"
proof -
  from assms obtain t0 where "(step config V)\<^sup>*\<^sup>* (initial t0) s"
    unfolding reachable_def by blast
  then show ?thesis
    by (induction rule: rtranclp_induct) (auto intro: guarded_initial guarded_step)
qed

text \<open>
  C1. In every state the program can reach, at most one call of \<open>runScheduledTask\<close> is in
  progress, that is, waiting for the task or for a backoff between two attempts; and
  while one is, \<open>isRunning\<close> is true and a further call, from the cron job or from
  \<open>triggerNow\<close>, returns at the overlap check: its only trace is the skip, the task is not
  invoked and the engine is not touched.
\<close>

theorem runs_never_overlap:
  assumes "reachable config V s"
  shows "(\<forall>i j. i < length (firings s) \<and> j < length (firings s)
            \<and> in_progress (firings s ! i) \<and> in_progress (firings s ! j) \<longrightarrow> i = j)
         \<and> (\<forall>i < length (firings s). in_progress (firings s ! i) \<longrightarrow>
              isRunning (eng (state s))
              \<and> (\<forall>r. runScheduledTask_enter config V r (state s)
                        = (Returned Skipped, (state s)\<lparr>trace := trace (state s) @ [Skip]\<rparr>)))"
proof -
  from guarded_reachable[OF assms] have g: "guarded s" .
  then have one: "\<forall>i j. i < length (firings s) \<and> j < length (firings s)
            \<and> in_progress (firings s ! i) \<and> in_progress (firings s ! j) \<longrightarrow> i = j"
    and run: "isRunning (eng (state s)) \<longleftrightarrow> (\<exists>i < length (firings s). in_progress (firings s ! i))"
    unfolding guarded_def by blast+
  have "isRunning (eng (state s))
        \<and> (\<forall>r. runScheduledTask_enter config V r (state s)
                  = (Returned Skipped, (state s)\<lparr>trace := trace (state s) @ [Skip]\<rparr>))"
    if "i < length (firings s)" "in_progress (firings s ! i)" for i
  proof -
    from that run have b: "isRunning (eng (state s))" by blast
    then show ?thesis by (simp add: enter_busy)
  qed
  with one show ?thesis by blast
qed

lemma first_firing: "step no_sections accept_all (initial 1000) first_attempt"
proof -
  have e: "runScheduledTask_enter no_sections accept_all 0 (state (initial 1000))
             = (AwaitTask 0, state first_attempt)"
    by (simp add: runScheduledTask_enter_def loop_head_def maxRetries_def no_sections_def
        initial_def constructed_def first_attempt_def)
  from step.fire[OF e] show ?thesis
    by (simp add: first_attempt_def initial_def)
qed

lemma first_failure: "step no_sections accept_all first_attempt backing_off"
proof -
  have i: "0 < length (firings first_attempt)" by (simp add: first_attempt_def)
  have p: "firings first_attempt ! 0 = AwaitTask 0" by (simp add: first_attempt_def)
  have e: "runScheduledTask_settled no_sections accept_all 0 0 (Some (Err ''boom'')) (state first_attempt)
             = (AwaitBackoff 1 2000, state backing_off)"
    by (simp add: runScheduledTask_settled_def maxRetries_def backoffBase_def no_sections_def
        first_attempt_def backing_off_def Let_def)
  from step.settle[OF i p e] show ?thesis
    by (simp add: first_attempt_def backing_off_def)
qed

lemma reachable_backing_off: "reachable no_sections accept_all backing_off"
proof -
  have "(step no_sections accept_all)\<^sup>*\<^sup>* (initial 1000) first_attempt"
    using first_firing by (rule r_into_rtranclp[where r = "step no_sections accept_all"])
  then have "(step no_sections accept_all)\<^sup>*\<^sup>* (initial 1000) backing_off"
    using first_failure by (rule rtranclp.rtrancl_into_rtrancl)
  then show ?thesis unfolding reachable_def by (rule exI)
qed

theorem runs_never_overlap_witness:
  "reachable no_sections accept_all backing_off
   \<and> firings backing_off = [AwaitBackoff 1 2000]
   \<and> isRunning (eng (state backing_off))
   \<and> runScheduledTask_enter no_sections accept_all 0 (state backing_off)
       = (Returned Skipped, (state backing_off)\<lparr>trace := [SetLastRun 1000, Invoke, Sleep 2000, Skip]\<rparr>)"
proof -
  have f: "firings backing_off = [AwaitBackoff 1 2000]" by (simp add: backing_off_def)
  have t: "trace (state backing_off) = [SetLastRun 1000, Invoke, Sleep 2000]"
    by (simp add: backing_off_def)
  show ?thesis
    using reachable_backing_off runs_never_overlap[OF reachable_backing_off] f t
    by simp
qed

end
